theory Spec2Isabelle
  imports Main
begin

section \<open>Values, errors and log records\<close>

text \<open>
  The values that \<^verbatim>\<open>json.loads\<close> hands to the program: null, booleans, integers,
  strings, arrays and objects. A Python \<^verbatim>\<open>str\<close> is a list of code points; the model
  keeps the code points below 256, one \<^typ>\<open>char\<close> each.
\<close>

datatype json =
    JNull
  | JBool bool
  | JInt int
  | JStr string
  | JArr "json list"
  | JObj "(string \<times> json) list"

text \<open>Every \<^verbatim>\<open>raise\<close> of the program and of the library calls it makes is a value.\<close>

datatype error =
    AssertionError string
  | TypeError
  | KeyError json
  | ValueError
  | JSONDecodeError
  | RecursionError

datatype log_entry = Debug string | Warning string | Error string

text \<open>\<^verbatim>\<open>str(n)\<close> and the \<^verbatim>\<open>{n}\<close> of a format string, for a non-negative integer.\<close>

fun str_nat :: "nat \<Rightarrow> string" where
  "str_nat n =
     (if n < 10 then [''0123456789'' ! n]
      else str_nat (n div 10) @ [''0123456789'' ! (n mod 10)])"

declare str_nat.simps [simp del]

definition str_int :: "int \<Rightarrow> string" where
  "str_int i = (if i < 0 then CHR ''-'' # str_nat (nat (- i)) else str_nat (nat i))"

subsection \<open>Python dictionaries\<close>

text \<open>
  A \<^verbatim>\<open>dict\<close> keeps its keys in insertion order; storing under a key that is already
  there replaces the value and leaves the key and its position alone. Keys are compared
  with \<^verbatim>\<open>==\<close>, under which \<^verbatim>\<open>True == 1\<close> and \<^verbatim>\<open>False == 0\<close>; lists and dicts are
  not hashable.
\<close>

type_synonym 'v pydict = "(json \<times> 'v) list"

fun hashable :: "json \<Rightarrow> bool" where
  "hashable (JArr _) = False"
| "hashable (JObj _) = False"
| "hashable _ = True"

fun hkey :: "json \<Rightarrow> json" where
  "hkey (JBool b) = JInt (if b then 1 else 0)"
| "hkey k = k"

fun dict_get :: "'v pydict \<Rightarrow> json \<Rightarrow> 'v option" where
  "dict_get [] k = None"
| "dict_get ((k', v) # d) k = (if hkey k' = hkey k then Some v else dict_get d k)"

fun dict_set :: "'v pydict \<Rightarrow> json \<Rightarrow> 'v \<Rightarrow> 'v pydict" where
  "dict_set [] k v = [(k, v)]"
| "dict_set ((k', v') # d) k v =
     (if hkey k' = hkey k then (k', v) # d else (k', v') # dict_set d k v)"

text \<open>\<^verbatim>\<open>{k: v for k, v in pairs}\<close>: the pairs are stored from left to right.\<close>

fun dict_of_pairs :: "'v pydict \<Rightarrow> (json \<times> 'v) list \<Rightarrow> error + 'v pydict" where
  "dict_of_pairs d [] = Inr d"
| "dict_of_pairs d ((k, v) # ps) =
     (if hashable k then dict_of_pairs (dict_set d k v) ps else Inl TypeError)"

text \<open>One step of that loop, as a function foldable over the pairs.\<close>

abbreviation store_pair :: "'v pydict \<Rightarrow> json \<times> 'v \<Rightarrow> 'v pydict" where
  "store_pair d kv \<equiv> dict_set d (fst kv) (snd kv)"

text \<open>\<^verbatim>\<open>len(x)\<close> and the items \<^verbatim>\<open>iter(x)\<close> produces, for a decoded JSON value.\<close>

fun py_len :: "json \<Rightarrow> error + nat" where
  "py_len (JArr xs) = Inr (length xs)"
| "py_len (JStr s) = Inr (length s)"
| "py_len (JObj kvs) = Inr (length kvs)"
| "py_len _ = Inl TypeError"

fun py_iter :: "json \<Rightarrow> json list" where
  "py_iter (JArr xs) = xs"
| "py_iter (JStr s) = map (\<lambda>c. JStr [c]) s"
| "py_iter (JObj kvs) = map (\<lambda>kv. JStr (fst kv)) kvs"
| "py_iter _ = []"

section \<open>Row parsing\<close>

type_synonym row = "json pydict"

text \<open>
  \<^verbatim>\<open>mapjsonlinetoassembblaobject(jsonstring, fieldlist, linenum, linetype)\<close>. The decoder
  \<^verbatim>\<open>json.loads\<close> is library code and is a parameter. The result is the debug record
  logged on entry, and either the exception raised or the row returned.
\<close>

definition assertion_message :: "nat \<Rightarrow> nat \<Rightarrow> nat \<Rightarrow> string \<Rightarrow> string" where
  "assertion_message linenum actual expected linetype =
     ''Assertion fail: '' @ linetype @ '' line ['' @ str_nat linenum @
     ''] actual fields ['' @ str_nat actual @ ''] != expected fields ['' @
     str_nat expected @ '']''"

definition mapjsonlinetoassembblaobject ::
  "(string \<Rightarrow> error + json) \<Rightarrow> string \<Rightarrow> json \<Rightarrow> nat \<Rightarrow> string \<Rightarrow>
     log_entry list \<times> (error + row)" where
  "mapjsonlinetoassembblaobject loads jsonstring fieldlist linenum linetype =
     ([Debug (''attempting to parse line #'' @ str_nat linenum @ '' as a '' @ linetype)],
      (case loads jsonstring of
         Inl e \<Rightarrow> Inl e
       | Inr arr \<Rightarrow>
           (case py_len arr of
              Inl e \<Rightarrow> Inl e
            | Inr n \<Rightarrow>
                (case py_len fieldlist of
                   Inl e \<Rightarrow> Inl e
                 | Inr m \<Rightarrow>
                     if n \<noteq> m
                     then Inl (AssertionError (assertion_message linenum n m linetype))
                     else dict_of_pairs [] (zip (py_iter fieldlist) (py_iter arr))))))"

section \<open>String operations of the line interpreter\<close>

text \<open>\<^verbatim>\<open>string.printable\<close>: digits, letters, punctuation and the six ASCII blanks.\<close>

definition printable :: string where
  "printable =
     ''0123456789abcdefghijklmnopqrstuvwxyzABCDEFGHIJKLMNOPQRSTUVWXYZ'' @
     ''!'' @ [CHR 0x22] @ ''#$%&'' @ [CHR 0x27] @ ''()*+,-./:;<=>?@['' @ [CHR 0x5C] @
     '']^_`{|}~'' @
     [CHR '' '', CHR 0x09, CHR 0x0A, CHR 0x0D, CHR 0x0B, CHR 0x0C]"

text \<open>
  The characters \<^verbatim>\<open>str.strip\<close> and \<^verbatim>\<open>str.rstrip\<close> remove when called without an
  argument: those for which \<^verbatim>\<open>str.isspace\<close> holds, here the ones below 256.
\<close>

definition isspace :: "char \<Rightarrow> bool" where
  "isspace c \<longleftrightarrow> c \<in> set [CHR '' '', CHR 0x09, CHR 0x0A, CHR 0x0B, CHR 0x0C, CHR 0x0D,
                            CHR 0x1C, CHR 0x1D, CHR 0x1E, CHR 0x1F, CHR 0x85, CHR 0xA0]"

definition rstrip :: "string \<Rightarrow> string" where
  "rstrip s = rev (dropWhile isspace (rev s))"

definition strip :: "string \<Rightarrow> string" where
  "strip s = dropWhile isspace (rstrip s)"

definition startswith :: "string \<Rightarrow> string \<Rightarrow> bool" where
  "startswith s p \<longleftrightarrow> take (length p) s = p"

text \<open>
  \<^verbatim>\<open>s.split(sep)\<close> for a non-empty separator: the pieces between the occurrences of
  \<^verbatim>\<open>sep\<close>, found from left to right without overlap. The second argument holds the
  piece read so far. (Python raises on an empty separator; the program never passes one.)
\<close>

function split_from :: "string \<Rightarrow> string \<Rightarrow> string \<Rightarrow> string list" where
  "split_from sep piece [] = [piece]"
| "split_from sep piece (c # cs) =
     (if sep \<noteq> [] \<and> startswith (c # cs) sep
      then piece # split_from sep [] (drop (length sep) (c # cs))
      else split_from sep (piece @ [c]) cs)"
  by pat_completeness auto
termination
  by (relation "measure (\<lambda>(sep, piece, s). length s)") auto

definition split :: "string \<Rightarrow> string \<Rightarrow> string list" where
  "split s sep = split_from sep [] s"

text \<open>
  \<^verbatim>\<open>s.replace(old, new)\<close> for a non-empty \<^verbatim>\<open>old\<close>: every occurrence of
  \<^verbatim>\<open>old\<close>, found from left to right without overlap, becomes \<^verbatim>\<open>new\<close>.
\<close>

function replace :: "string \<Rightarrow> string \<Rightarrow> string \<Rightarrow> string" where
  "replace [] old new = []"
| "replace (c # cs) old new =
     (if old \<noteq> [] \<and> startswith (c # cs) old
      then new @ replace (drop (length old) (c # cs)) old new
      else c # replace cs old new)"
  by pat_completeness auto
termination
  by (relation "measure (\<lambda>(s, old, new). length s)") auto

section \<open>The line interpreter\<close>

text \<open>
  The line as the loop reads it: trailing blanks stripped, then every character outside
  \<^verbatim>\<open>string.printable\<close> dropped. One iteration of the loop of
  \<^verbatim>\<open>filereadertoassemblaobjectgenerator\<close> then does one of four things with it:
  \<^verbatim>\<open>continue\<close> without a change, store a field list, yield a tuple, or raise.
\<close>

definition sanitize :: "string \<Rightarrow> string" where
  "sanitize line0 = filter (\<lambda>x. x \<in> set printable) (rstrip line0)"

datatype line_outcome =
    Skipped
  | Declared string json
  | Yielded "nat \<times> string \<times> string \<times> row"
  | Raised error

definition filereader_line ::
  "(string \<Rightarrow> error + json) \<Rightarrow> (string \<rightharpoonup> json) \<Rightarrow> nat \<Rightarrow> string \<Rightarrow>
     log_entry list \<times> line_outcome" where
  "filereader_line loads fieldmap linenum line0 =
     (let line1 = rstrip line0;
          line = sanitize line0;
          log1 = (if line \<noteq> line1
                  then [Debug (''line #'' @ str_nat linenum @ '': Unprintable chars in '' @
                          [CHR 0x27] @ line @ [CHR 0x27])]
                  else []) @
                 [Debug (''line #'' @ str_nat linenum @ '': '' @ line)];
          fields = split line '':fields, ''
      in if length fields > 2
         then (log1 @ [Error (''line #'' @ str_nat linenum @ '': Unexpected field count in '' @
                         [CHR 0x27] @ line @ [CHR 0x27])], Skipped)
         else if length fields > 1
         then (case loads (fields ! 1) of
                 Inl e \<Rightarrow> (log1, Raised e)
               | Inr fl \<Rightarrow> (log1, Declared (fields ! 0) fl))
         else
           (let heading = split line '', [''
            in if length heading < 2
               then (log1 @ [Error (''line #'' @ str_nat linenum @ '': Unexpected syntax in '' @
                               [CHR 0x27] @ line @ [CHR 0x27])], Skipped)
               else
                 (let table = heading ! 0
                  in case fieldmap table of
                       None \<Rightarrow>
                         (log1 @ [Error (''line #{linenum}: Table '' @ [CHR 0x27] @ ''{table}'' @
                                    [CHR 0x27] @ '' not defined before '' @ [CHR 0x27] @
                                    ''{line}'' @ [CHR 0x27])], Skipped)
                     | Some fieldlist \<Rightarrow>
                         (let currentline = strip (replace line (table @ '', '') [])
                          in case mapjsonlinetoassembblaobject loads currentline
                                    fieldlist linenum table of
                               (log2, Inl e) \<Rightarrow> (log1 @ log2, Raised e)
                             | (log2, Inr row) \<Rightarrow>
                                 (log1 @ log2, Yielded (linenum, line, table, row))))))"

text \<open>
  The generator, run to its end: the tuples it yielded, the field map it left behind, what
  it logged, and the exception that ended it, if one did.
\<close>

record reader_result =
  yielded :: "(nat \<times> string \<times> string \<times> row) list"
  fieldmap_out :: "string \<rightharpoonup> json"
  logged :: "log_entry list"
  raised :: "error option"

fun filereader_from ::
  "(string \<Rightarrow> error + json) \<Rightarrow> (string \<rightharpoonup> json) \<Rightarrow> nat \<Rightarrow> string list \<Rightarrow> reader_result" where
  "filereader_from loads fieldmap linenum [] =
     \<lparr>yielded = [], fieldmap_out = fieldmap, logged = [], raised = None\<rparr>"
| "filereader_from loads fieldmap linenum (line # lines) =
     (case filereader_line loads fieldmap linenum line of
        (lg, Skipped) \<Rightarrow>
          (let r = filereader_from loads fieldmap (Suc linenum) lines
           in r\<lparr>logged := lg @ logged r\<rparr>)
      | (lg, Declared key fl) \<Rightarrow>
          (let r = filereader_from loads (fieldmap(key \<mapsto> fl)) (Suc linenum) lines
           in r\<lparr>logged := lg @ logged r\<rparr>)
      | (lg, Yielded t) \<Rightarrow>
          (let r = filereader_from loads fieldmap (Suc linenum) lines
           in r\<lparr>yielded := t # yielded r, logged := lg @ logged r\<rparr>)
      | (lg, Raised e) \<Rightarrow>
          \<lparr>yielded = [], fieldmap_out = fieldmap, logged = lg, raised = Some e\<rparr>)"

definition filereadertoassemblaobjectgenerator ::
  "(string \<Rightarrow> error + json) \<Rightarrow> string list \<Rightarrow> (string \<rightharpoonup> json) \<Rightarrow> reader_result" where
  "filereadertoassemblaobjectgenerator loads lines fieldmap =
     filereader_from loads fieldmap 0 lines"

section \<open>The indexer\<close>

text \<open>
  \<^verbatim>\<open>genindex(data, keymap)\<close>. \<^verbatim>\<open>data\<close> maps a table name to its rows, in the order the
  tables were first seen; \<^verbatim>\<open>keymap\<close> maps \<^verbatim>\<open>None\<close> and some table names to a key
  field name or to \<^verbatim>\<open>None\<close>.

  \<^verbatim>\<open>[k[key] for k in objects]\<close>: a row without the key field raises \<^verbatim>\<open>KeyError\<close>.
\<close>

fun row_keys :: "string \<Rightarrow> row list \<Rightarrow> error + json list" where
  "row_keys key [] = Inr []"
| "row_keys key (k # objects) =
     (case dict_get k (JStr key) of
        None \<Rightarrow> Inl (KeyError (JStr key))
      | Some i \<Rightarrow>
          (case row_keys key objects of
             Inl e \<Rightarrow> Inl e
           | Inr ids \<Rightarrow> Inr (i # ids)))"

text \<open>\<^verbatim>\<open>keymap.get(table, default)\<close>.\<close>

definition table_key ::
  "(string option \<rightharpoonup> string option) \<Rightarrow> string option \<Rightarrow> string \<Rightarrow> string option" where
  "table_key keymap dflt table =
     (case keymap (Some table) of None \<Rightarrow> dflt | Some key \<Rightarrow> key)"

definition non_unique_message :: "string \<Rightarrow> nat \<Rightarrow> nat \<Rightarrow> string" where
  "non_unique_message table unique rows =
     ''Non unique id in table '' @ [CHR 0x27] @ table @ [CHR 0x27] @ '', '' @
     str_nat unique @ '' unique of '' @ str_nat rows @ '' rows''"

text \<open>
  The body of the loop for a table that is not skipped. \<^verbatim>\<open>set(ids)\<close> hashes every id, and
  \<^verbatim>\<open>len(set(ids))\<close> counts the ids that differ under \<^verbatim>\<open>==\<close>.
\<close>

definition index_table ::
  "string \<Rightarrow> string \<Rightarrow> row list \<Rightarrow> log_entry list \<times> (error + row pydict)" where
  "index_table table key objects =
     (case row_keys key objects of
        Inl e \<Rightarrow> ([], Inl e)
      | Inr ids \<Rightarrow>
          if \<not> list_all hashable ids then ([], Inl TypeError)
          else
            (let unique = length (remdups (map hkey ids))
             in (if length ids \<noteq> unique
                 then [Warning (non_unique_message table unique (length ids))]
                 else [],
                 dict_of_pairs [] (zip ids objects))))"

fun genindex_from ::
  "(string option \<rightharpoonup> string option) \<Rightarrow> string option \<Rightarrow> (string \<times> row list) list \<Rightarrow>
     (string \<rightharpoonup> row pydict) \<Rightarrow> log_entry list \<times> (error + (string \<rightharpoonup> row pydict))" where
  "genindex_from keymap dflt [] index = ([], Inr index)"
| "genindex_from keymap dflt ((table, objects) # rest) index =
     (case table_key keymap dflt table of
        None \<Rightarrow> genindex_from keymap dflt rest index
      | Some key \<Rightarrow>
          if startswith table ''_'' then genindex_from keymap dflt rest index
          else
            (case index_table table key objects of
               (lg, Inl e) \<Rightarrow> (lg, Inl e)
             | (lg, Inr d) \<Rightarrow>
                 (case genindex_from keymap dflt rest (index(table \<mapsto> d)) of
                    (lg', r) \<Rightarrow> (lg @ lg', r))))"

definition genindex ::
  "(string \<times> row list) list \<Rightarrow> (string option \<rightharpoonup> string option) \<Rightarrow>
     log_entry list \<times> (error + (string \<rightharpoonup> row pydict))" where
  "genindex data keymap =
     (case keymap None of
        None \<Rightarrow> ([], Inl (KeyError JNull))
      | Some dflt \<Rightarrow> genindex_from keymap dflt data Map.empty)"

text \<open>
  The tables the loop does not skip can all be indexed: every row holds the key field of its
  table, and the value is hashable.
\<close>

definition indexed_ok ::
  "(string option \<rightharpoonup> string option) \<Rightarrow> string option \<Rightarrow> (string \<times> row list) list \<Rightarrow> bool" where
  "indexed_ok keymap dflt data \<longleftrightarrow>
     (\<forall>(t, objs) \<in> set data. \<forall>key.
        table_key keymap dflt t = Some key \<and> \<not> startswith t ''_'' \<longrightarrow>
        (\<exists>ids. row_keys key objs = Inr ids \<and> list_all hashable ids))"

section \<open>The wiki tables\<close>

text \<open>
  The rows of \<^verbatim>\<open>wiki_pages\<close> and \<^verbatim>\<open>wiki_page_versions\<close> with the fields the program
  reads, typed as the comment block of \<^verbatim>\<open>wikiparser\<close> documents them: ids, positions,
  status and version numbers are integers, \<^verbatim>\<open>parent_id\<close> is an integer or null, user ids,
  names and dates are strings, the change comment is a string or null.
\<close>

record wiki_page =
  page_id :: int
  parent_id :: "int option"
  user_id :: string
  status :: int
  position :: int
  page_name :: string
  created_at :: string
  updated_at :: string

record wiki_page_version =
  v_id :: int
  v_wiki_page_id :: int
  v_user_id :: string
  v_version :: int
  v_change_comment :: "string option"
  v_created_at :: string
  v_updated_at :: string

text \<open>An entry of the user index: a dict that may hold \<^verbatim>\<open>id\<close>, \<^verbatim>\<open>name\<close> and \<^verbatim>\<open>email\<close>.\<close>

record user =
  u_id :: "string option"
  u_name :: "string option"
  u_email :: "string option"

text \<open>
  A \<^verbatim>\<open>datetime\<close>: its wall-clock fields as one number of microseconds, and the offset
  from UTC if it is aware. \<^verbatim>\<open>datetime.fromisoformat\<close> and \<^verbatim>\<open>str\<close> on a datetime are
  library code and are parameters of the functions that call them. Ordering comparisons
  between a naive and an aware datetime raise \<^verbatim>\<open>TypeError\<close>; two aware ones compare by
  their UTC instants.
\<close>

record datetime =
  wall :: int
  utcoffset :: "int option"

definition dt_key :: "datetime \<Rightarrow> int" where
  "dt_key t = (case utcoffset t of None \<Rightarrow> wall t | Some off \<Rightarrow> wall t - off)"

definition aware :: "datetime \<Rightarrow> bool" where
  "aware t \<longleftrightarrow> utcoffset t \<noteq> None"

definition dt_le :: "datetime \<Rightarrow> datetime \<Rightarrow> error + bool" where
  "dt_le a b = (if aware a = aware b then Inr (dt_key a \<le> dt_key b) else Inl TypeError)"

text \<open>
  \<^verbatim>\<open>sorted(xs, key=...)\<close> with datetime keys. The sort is stable. It compares keys with
  \<^verbatim>\<open><\<close>, and no comparison sort can order a list without comparing, directly or through
  a chain, every element with every other: a list that mixes naive and aware keys makes it
  raise \<^verbatim>\<open>TypeError\<close>.
\<close>

definition sorted_by_datetime :: "('a \<Rightarrow> datetime) \<Rightarrow> 'a list \<Rightarrow> error + 'a list" where
  "sorted_by_datetime key xs =
     (if \<exists>x \<in> set xs. \<exists>y \<in> set xs. aware (key x) \<noteq> aware (key y)
      then Inl TypeError
      else Inr (sort_key (\<lambda>x. dt_key (key x)) xs))"

subsection \<open>Page objects and the state of the parser\<close>

text \<open>
  The row objects of \<^verbatim>\<open>wiki_pages\<close> are shared between the table, the index and the
  lists of children, and the parser mutates them. The model keeps them in a store, a list in
  table order, and a reference to a row is its position there. The fields the source names with
  a leading underscore carry the prefix \<open>x_\<close>; \<open>None\<close> says the key is not set yet
  (for \<open>x_parent_id\<close> also that it is set to \<^verbatim>\<open>None\<close>: nothing reads it).

  \<^verbatim>\<open>_children\<close> is a reference to a list: the empty list of its own that
  \<^verbatim>\<open>setdefault\<close> made, or the list \<^verbatim>\<open>wikitree[k]\<close>, which goes on growing.
\<close>

datatype children_ref = Own | Group "int option"

record node =
  src :: wiki_page
  x_parent_id :: "nat option"
  x_children :: "children_ref option"
  x_user_id :: "user option"
  x_created_at :: "datetime option"
  x_updated_at :: "datetime option"
  x_level :: "nat option"

record wiki_state =
  nodes :: "node list"
  wikitree :: "int option \<rightharpoonup> nat list"

text \<open>
  What \<^verbatim>\<open>wikiparser\<close> reads from \<^verbatim>\<open>data\<close>: the two tables, and the indexes of
  \<^verbatim>\<open>wiki_pages\<close> (key to row reference), of \<^verbatim>\<open>wiki_page_blobs\<close> (version id to the
  \<^verbatim>\<open>blob_id\<close> of the row, if it has one) and of the users.
\<close>

record assembla_data =
  wiki_pages :: "wiki_page list"
  wiki_page_versions :: "wiki_page_version list"
  index_wiki_pages :: "int \<rightharpoonup> nat"
  index_wiki_page_blobs :: "int \<rightharpoonup> string option"
  index_users :: "string \<rightharpoonup> user"

text \<open>\<^verbatim>\<open>if parent:\<close> on an integer or null.\<close>

definition truthy :: "int option \<Rightarrow> bool" where
  "truthy parent \<longleftrightarrow> parent \<noteq> None \<and> parent \<noteq> Some 0"

definition fresh_node :: "wiki_page \<Rightarrow> node" where
  "fresh_node r =
     \<lparr>src = r, x_parent_id = None, x_children = None, x_user_id = None,
      x_created_at = None, x_updated_at = None, x_level = None\<rparr>"

definition initial_state :: "assembla_data \<Rightarrow> wiki_state" where
  "initial_state d = \<lparr>nodes = map fresh_node (wiki_pages d), wikitree = Map.empty\<rparr>"

text \<open>An assignment to keys of the object at reference \<open>a\<close>.\<close>

definition set_node :: "nat \<Rightarrow> (node \<Rightarrow> node) \<Rightarrow> wiki_state \<Rightarrow> wiki_state" where
  "set_node a f st = st\<lparr>nodes := (nodes st)[a := f (nodes st ! a)]\<rparr>"

text \<open>\<^verbatim>\<open>wikitree.setdefault(parent, [])\<close> and \<^verbatim>\<open>wikitree[parent].append(v)\<close>.\<close>

definition append_to_group :: "int option \<Rightarrow> nat \<Rightarrow> wiki_state \<Rightarrow> wiki_state" where
  "append_to_group parent a st =
     st\<lparr>wikitree := (wikitree st)
           (parent \<mapsto> (case wikitree st parent of None \<Rightarrow> [] | Some g \<Rightarrow> g) @ [a])\<rparr>"

text \<open>The body of the first loop of \<^verbatim>\<open>wikiparser\<close>, for the row at reference \<open>a\<close>.\<close>

definition wiki_page_step ::
  "(string \<Rightarrow> error + datetime) \<Rightarrow> assembla_data \<Rightarrow> nat \<Rightarrow> wiki_state \<Rightarrow> error + wiki_state" where
  "wiki_page_step fromisoformat d a st =
     (let r = src (nodes st ! a);
          pref = (case parent_id r of None \<Rightarrow> None | Some k \<Rightarrow> index_wiki_pages d k)
      in case index_users d (user_id r) of
           None \<Rightarrow> Inl (KeyError (JStr (user_id r)))
         | Some u \<Rightarrow>
         (case fromisoformat (created_at r) of
            Inl e \<Rightarrow> Inl e
          | Inr c \<Rightarrow>
          (case fromisoformat (updated_at r) of
             Inl e \<Rightarrow> Inl e
           | Inr up \<Rightarrow>
               (let st1 = set_node a
                            (\<lambda>v. v\<lparr>x_parent_id := pref,
                                   x_children := Some (case x_children v of
                                                         None \<Rightarrow> Own | Some ch \<Rightarrow> ch),
                                   x_user_id := Some u,
                                   x_created_at := Some c, x_updated_at := Some up\<rparr>) st;
                    parent = parent_id r;
                    st2 = append_to_group parent a st1
                in case (if truthy parent then parent else None) of
                     None \<Rightarrow> Inr (set_node a (\<lambda>v. v\<lparr>x_level := Some 0\<rparr>) st2)
                   | Some k \<Rightarrow>
                       (case index_wiki_pages d k of
                          None \<Rightarrow> Inl (KeyError (JInt k))
                        | Some pa \<Rightarrow>
                            (let st3 = set_node pa
                                         (\<lambda>parentobj. parentobj\<lparr>x_children := Some (Group parent)\<rparr>)
                                         st2;
                                 lvl = (case x_level (nodes st3 ! pa) of
                                          None \<Rightarrow> 0 | Some l \<Rightarrow> l) + 1
                             in Inr (set_node a (\<lambda>v. v\<lparr>x_level := Some lvl\<rparr>) st3)))))))"

fun wiki_pages_loop ::
  "(string \<Rightarrow> error + datetime) \<Rightarrow> assembla_data \<Rightarrow> nat list \<Rightarrow> wiki_state \<Rightarrow>
     error + wiki_state" where
  "wiki_pages_loop fromisoformat d [] st = Inr st"
| "wiki_pages_loop fromisoformat d (a # rest) st =
     (case wiki_page_step fromisoformat d a st of
        Inl e \<Rightarrow> Inl e
      | Inr st' \<Rightarrow> wiki_pages_loop fromisoformat d rest st')"

subsection \<open>Version objects\<close>

text \<open>
  The second loop of \<^verbatim>\<open>wikiparser\<close> adds five keys to every version row. It runs when the
  page objects have their final state, so the version holds the page object by value.
\<close>

record version_obj =
  vrow :: wiki_page_version
  vx_blob_id :: "string option"
  vx_wiki_page_id :: node
  vx_user_id :: user
  vx_created_at :: datetime
  vx_updated_at :: datetime

definition wiki_version_step ::
  "(string \<Rightarrow> error + datetime) \<Rightarrow> assembla_data \<Rightarrow> wiki_state \<Rightarrow> wiki_page_version \<Rightarrow>
     error + version_obj" where
  "wiki_version_step fromisoformat d st v =
     (case index_wiki_page_blobs d (v_id v) of
        None \<Rightarrow> Inl (KeyError (JInt (v_id v)))
      | Some blob \<Rightarrow>
      (case index_wiki_pages d (v_wiki_page_id v) of
         None \<Rightarrow> Inl (KeyError (JInt (v_wiki_page_id v)))
       | Some pa \<Rightarrow>
       (case index_users d (v_user_id v) of
          None \<Rightarrow> Inl (KeyError (JStr (v_user_id v)))
        | Some u \<Rightarrow>
        (case fromisoformat (v_created_at v) of
           Inl e \<Rightarrow> Inl e
         | Inr c \<Rightarrow>
         (case fromisoformat (v_updated_at v) of
            Inl e \<Rightarrow> Inl e
          | Inr up \<Rightarrow>
              Inr \<lparr>vrow = v, vx_blob_id = blob, vx_wiki_page_id = nodes st ! pa,
                   vx_user_id = u, vx_created_at = c, vx_updated_at = up\<rparr>)))))"

fun wiki_versions_loop ::
  "(string \<Rightarrow> error + datetime) \<Rightarrow> assembla_data \<Rightarrow> wiki_state \<Rightarrow> wiki_page_version list \<Rightarrow>
     error + version_obj list" where
  "wiki_versions_loop fromisoformat d st [] = Inr []"
| "wiki_versions_loop fromisoformat d st (v # rest) =
     (case wiki_version_step fromisoformat d st v of
        Inl e \<Rightarrow> Inl e
      | Inr vo \<Rightarrow>
          (case wiki_versions_loop fromisoformat d st rest of
             Inl e \<Rightarrow> Inl e
           | Inr vos \<Rightarrow> Inr (vo # vos)))"

subsection \<open>The traversal\<close>

text \<open>The list \<^verbatim>\<open>v['_children']\<close> refers to, if the key is set.\<close>

definition children_of :: "wiki_state \<Rightarrow> nat \<Rightarrow> nat list option" where
  "children_of st a =
     (case x_children (nodes st ! a) of
        None \<Rightarrow> None
      | Some Own \<Rightarrow> Some []
      | Some (Group k) \<Rightarrow> Some (case wikitree st k of None \<Rightarrow> [] | Some g \<Rightarrow> g))"

definition position_of :: "wiki_state \<Rightarrow> nat \<Rightarrow> int" where
  "position_of st a = position (src (nodes st ! a))"

text \<open>The results of consecutive pieces of work, up to the first exception.\<close>

fun collect :: "(error + 'a list) list \<Rightarrow> error + 'a list" where
  "collect [] = Inr []"
| "collect (Inl e # rs) = Inl e"
| "collect (Inr xs # rs) = (case collect rs of Inl e \<Rightarrow> Inl e | Inr ys \<Rightarrow> Inr (xs @ ys))"

text \<open>
  \<^verbatim>\<open>_wikitraverse(tree)\<close>, consumed to its end by \<^verbatim>\<open>list\<close>. The recursion is as deep as the
  tree; \<open>limit\<close> is the number of nested calls the interpreter still allows, and a call
  beyond it raises \<^verbatim>\<open>RecursionError\<close>.
\<close>

fun wikitraverse :: "wiki_state \<Rightarrow> nat \<Rightarrow> nat list \<Rightarrow> error + nat list" where
  "wikitraverse st 0 tree = Inl RecursionError"
| "wikitraverse st (Suc limit) tree =
     collect (map (\<lambda>a. case children_of st a of
                          None \<Rightarrow> Inr [a]
                        | Some ch \<Rightarrow>
                            (case wikitraverse st limit ch of
                               Inl e \<Rightarrow> Inl e
                             | Inr sub \<Rightarrow> Inr (a # sub)))
                  (sort_key (position_of st) tree))"

text \<open>
  \<^verbatim>\<open>wikiparser(data)\<close>: the references of the pages in presentation order, with the state
  the function leaves in \<^verbatim>\<open>data\<close>, the page objects and the version objects.
\<close>

definition wiki_enrich ::
  "(string \<Rightarrow> error + datetime) \<Rightarrow> assembla_data \<Rightarrow> error + wiki_state \<times> version_obj list" where
  "wiki_enrich fromisoformat d =
     (case wiki_pages_loop fromisoformat d [0..<length (wiki_pages d)] (initial_state d) of
        Inl e \<Rightarrow> Inl e
      | Inr st \<Rightarrow>
          (case wiki_versions_loop fromisoformat d st (wiki_page_versions d) of
             Inl e \<Rightarrow> Inl e
           | Inr vs \<Rightarrow> Inr (st, vs)))"

definition wikiparser ::
  "nat \<Rightarrow> (string \<Rightarrow> error + datetime) \<Rightarrow> assembla_data \<Rightarrow>
     error + nat list \<times> wiki_state \<times> version_obj list" where
  "wikiparser limit fromisoformat d =
     (case wiki_enrich fromisoformat d of
        Inl e \<Rightarrow> Inl e
      | Inr (st, vs) \<Rightarrow>
          (case wikitree st None of
             None \<Rightarrow> Inl (KeyError JNull)
           | Some roots \<Rightarrow>
               (case wikitraverse st limit roots of
                  Inl e \<Rightarrow> Inl e
                | Inr order \<Rightarrow> Inr (order, st, vs))))"

section \<open>The replay generator\<close>

text \<open>
  \<^verbatim>\<open>filter(pred, xs)\<close> is lazy: the test runs on an element when the consumer reaches it, and
  an exception of the test surfaces there. The model of the iterator is the list of the
  elements, each with the outcome its test will have.
\<close>

definition lazy_filter :: "('a \<Rightarrow> error + bool) \<Rightarrow> 'a list \<Rightarrow> ((error + bool) \<times> 'a) list" where
  "lazy_filter pred xs = map (\<lambda>x. (pred x, x)) xs"

text \<open>\<^verbatim>\<open>lambda w: w['_created_at'] <= now and w['status'] == 1\<close>.\<close>

definition present_at :: "datetime \<Rightarrow> node \<Rightarrow> error + bool" where
  "present_at now w =
     (case x_created_at w of
        None \<Rightarrow> Inl (KeyError (JStr ''_created_at''))
      | Some c \<Rightarrow>
          (case dt_le c now of
             Inl e \<Rightarrow> Inl e
           | Inr b \<Rightarrow> Inr (b \<and> status (src w) = 1)))"

text \<open>\<^verbatim>\<open>wikiindexproducer(index)\<close>; the first argument of the loop is \<^verbatim>\<open>out\<close>.\<close>

fun wikiindexproducer_from :: "string \<Rightarrow> ((error + bool) \<times> node) list \<Rightarrow> error + string" where
  "wikiindexproducer_from out [] = Inr out"
| "wikiindexproducer_from out ((Inl e, v) # index) = Inl e"
| "wikiindexproducer_from out ((Inr False, v) # index) = wikiindexproducer_from out index"
| "wikiindexproducer_from out ((Inr True, v) # index) =
     (case x_level v of
        None \<Rightarrow> Inl (KeyError (JStr ''_level''))
      | Some l \<Rightarrow>
          wikiindexproducer_from
            (out @ concat (replicate l ''  '') @ ''* [['' @ page_name (src v) @ '']]'' @ [CHR 0x0A])
            index)"

definition wikiindexproducer :: "((error + bool) \<times> node) list \<Rightarrow> error + string" where
  "wikiindexproducer index = wikiindexproducer_from (''**PortAudio**'' @ [CHR 0x0A]) index"

text \<open>\<^verbatim>\<open>a.get('name', a.get('id'))\<close>, and how a format string prints it.\<close>

definition display_name :: "user \<Rightarrow> string option" where
  "display_name a = (case u_name a of None \<Rightarrow> u_id a | Some n \<Rightarrow> Some n)"

definition str_opt :: "string option \<Rightarrow> string" where
  "str_opt x = (case x of None \<Rightarrow> ''None'' | Some s \<Rightarrow> s)"

definition getwikiblob :: "(datetime \<Rightarrow> string) \<Rightarrow> version_obj \<Rightarrow> string" where
  "getwikiblob str_datetime v =
     [CHR 0x0A] @ ''# '' @ page_name (src (vx_wiki_page_id v)) @ [CHR 0x0A, CHR 0x0A] @
     ''This is revision '' @ str_int (v_version (vrow v)) @ '' by '' @
     str_opt (display_name (vx_user_id v)) @ '' at '' @ str_datetime (vx_updated_at v) @
     ''.'' @ [CHR 0x0A, CHR 0x0A] @ ''## Placeholder page'' @ [CHR 0x0A]"

text \<open>The dict \<^verbatim>\<open>wikicommitgenerator\<close> yields for one version.\<close>

record replay_event =
  name :: string
  files :: "string pydict"
  author_name :: "string option"
  author_email :: string
  date :: datetime
  message :: string

definition wikicommit_event ::
  "(datetime \<Rightarrow> string) \<Rightarrow> node list \<Rightarrow> version_obj \<Rightarrow> error + replay_event" where
  "wikicommit_event str_datetime order v =
     (let p = vx_wiki_page_id v;
          now = vx_updated_at v;
          indexpages = lazy_filter (present_at now) order;
          fname = page_name (src p) @ ''.md'';
          author = vx_user_id v
      in case wikiindexproducer indexpages of
           Inl e \<Rightarrow> Inl e
         | Inr sidebar \<Rightarrow>
             Inr \<lparr>name = page_name (src p) @ '':'' @ str_int (v_version (vrow v)),
                  files = dict_set (dict_set [] (JStr ''_Sidebar.md'') sidebar)
                            (JStr fname) (getwikiblob str_datetime v),
                  author_name = display_name author,
                  author_email = (case u_email author of None \<Rightarrow> ''none@localhost'' | Some m \<Rightarrow> m),
                  date = now,
                  message = (case v_change_comment (vrow v) of None \<Rightarrow> [] | Some c \<Rightarrow> c)\<rparr>)"

text \<open>
  The generator, run to its end: the events it yielded, and the exception that ended it, if
  one did.
\<close>

fun wikicommit_from ::
  "(datetime \<Rightarrow> string) \<Rightarrow> node list \<Rightarrow> version_obj list \<Rightarrow> replay_event list \<times> error option" where
  "wikicommit_from str_datetime order [] = ([], None)"
| "wikicommit_from str_datetime order (v # vs) =
     (case wikicommit_event str_datetime order v of
        Inl e \<Rightarrow> ([], Some e)
      | Inr ev \<Rightarrow>
          (case wikicommit_from str_datetime order vs of
             (evs, r) \<Rightarrow> (ev # evs, r)))"

definition wikicommitgenerator ::
  "(datetime \<Rightarrow> string) \<Rightarrow> version_obj list \<Rightarrow> node list \<Rightarrow> replay_event list \<times> error option" where
  "wikicommitgenerator str_datetime wikiversions order =
     (case sorted_by_datetime vx_updated_at wikiversions of
        Inl e \<Rightarrow> ([], Some e)
      | Inr vs \<Rightarrow> wikicommit_from str_datetime order vs)"

text \<open>
  The events \<^verbatim>\<open>cmd_wikiconvert\<close> iterates over: \<^verbatim>\<open>wikiparser\<close>, then the generator on the
  version objects and the page objects in presentation order.
\<close>

definition wikiconvert_events ::
  "nat \<Rightarrow> (string \<Rightarrow> error + datetime) \<Rightarrow> (datetime \<Rightarrow> string) \<Rightarrow> assembla_data \<Rightarrow>
     replay_event list \<times> error option" where
  "wikiconvert_events limit fromisoformat str_datetime d =
     (case wikiparser limit fromisoformat d of
        Inl e \<Rightarrow> ([], Some e)
      | Inr (order, st, vs) \<Rightarrow>
          wikicommitgenerator str_datetime vs (map (\<lambda>a. nodes st ! a) order))"

subsection \<open>The index text of a version\<close>

text \<open>
  A page is in the index of a version when it was created at or before the version's update
  time and its status is 1 (active). Its line is indented by two spaces for each unit of the
  \<^verbatim>\<open>_level\<close> stored in the page object, and links the page by its title.
\<close>

definition active_at :: "datetime \<Rightarrow> node \<Rightarrow> bool" where
  "active_at now w \<longleftrightarrow>
     (case x_created_at w of None \<Rightarrow> False | Some c \<Rightarrow> dt_key c \<le> dt_key now)
     \<and> status (src w) = 1"

definition index_line :: "node \<Rightarrow> string" where
  "index_line w =
     concat (replicate (case x_level w of None \<Rightarrow> 0 | Some l \<Rightarrow> l) ''  '') @
     ''* [['' @ page_name (src w) @ '']]'' @ [CHR 0x0A]"

definition index_artifact :: "datetime \<Rightarrow> node list \<Rightarrow> string" where
  "index_artifact now order =
     ''**PortAudio**'' @ [CHR 0x0A] @ concat (map index_line (filter (active_at now) order))"

section \<open>The forest of the pages\<close>








section \<open>Concrete inputs\<close>

text \<open>
  A decoder that knows the texts of a table and rejects every other text: \<^verbatim>\<open>json.loads\<close>
  restricted to the texts a concrete run feeds it.
\<close>

definition decoder_of :: "(string \<times> json) list \<Rightarrow> string \<Rightarrow> error + json" where
  "decoder_of texts s = (case map_of texts s of None \<Rightarrow> Inl JSONDecodeError | Some v \<Rightarrow> Inr v)"

text \<open>The JSON text of a string without characters that need escaping.\<close>

definition quoted :: "string \<Rightarrow> string" where
  "quoted s = [CHR 0x22] @ s @ [CHR 0x22]"

text \<open>A table in which the id 42 occurs twice, and the key map of \<^verbatim>\<open>main\<close>.\<close>

definition tickets_data :: "(string \<times> row list) list" where
  "tickets_data =
     [(''tickets'',
       [[(JStr ''id'', JInt 42), (JStr ''summary'', JStr ''first'')],
        [(JStr ''id'', JInt 7), (JStr ''summary'', JStr ''other'')],
        [(JStr ''id'', JInt 42), (JStr ''summary'', JStr ''second'')]]),
      (''_fields'', [])]"

definition main_keymap :: "string option \<rightharpoonup> string option" where
  "main_keymap =
     [None \<mapsto> Some ''id'',
      Some ''wiki_page_blobs'' \<mapsto> Some ''version_id'',
      Some ''merge_requests'' \<mapsto> None,
      Some ''merge_request_versions'' \<mapsto> None,
      Some ''merge_request_votes'' \<mapsto> None,
      Some ''tickets_merge_requests'' \<mapsto> None,
      Some ''test_plan_tickets'' \<mapsto> None]"

text \<open>
  A date parser that knows the texts of a table, with naive results, and the printer that
  goes with it.
\<close>

definition dates :: "(string \<times> int) list" where
  "dates = [(''2020-01-01'', 1), (''2020-01-02'', 2), (''2020-01-03'', 3), (''2020-01-04'', 4)]"

definition fromisoformat_of :: "(string \<times> int) list \<Rightarrow> string \<Rightarrow> error + datetime" where
  "fromisoformat_of texts s =
     (case map_of texts s of
        None \<Rightarrow> Inl ValueError
      | Some t \<Rightarrow> Inr \<lparr>wall = t, utcoffset = None\<rparr>)"

definition str_datetime_of :: "(string \<times> int) list \<Rightarrow> datetime \<Rightarrow> string" where
  "str_datetime_of texts t =
     (case map_of (map (\<lambda>st. (snd st, fst st)) texts) (wall t) of
        None \<Rightarrow> []
      | Some s \<Rightarrow> s @ '' 00:00:00'')"

definition a_user :: user where
  "a_user = \<lparr>u_id = Some ''u1'', u_name = None, u_email = None\<rparr>"

definition a_page :: "int \<Rightarrow> int option \<Rightarrow> int \<Rightarrow> string \<Rightarrow> string \<Rightarrow> wiki_page" where
  "a_page i parent pos title created =
     \<lparr>page_id = i, parent_id = parent, user_id = ''u1'', status = 1, position = pos,
      page_name = title, created_at = created, updated_at = created\<rparr>"

text \<open>The index \<^verbatim>\<open>genindex\<close> builds over a page table: the last row with the key wins.\<close>

definition index_of_pages :: "wiki_page list \<Rightarrow> int \<rightharpoonup> nat" where
  "index_of_pages ps = foldl (\<lambda>m a. m(page_id (ps ! a) \<mapsto> a)) Map.empty [0..<length ps]"

definition data_of :: "wiki_page list \<Rightarrow> wiki_page_version list \<Rightarrow> assembla_data" where
  "data_of ps vs =
     \<lparr>wiki_pages = ps, wiki_page_versions = vs, index_wiki_pages = index_of_pages ps,
      index_wiki_page_blobs = (\<lambda>i. Some None), index_users = [''u1'' \<mapsto> a_user]\<rparr>"

text \<open>
  A chain of three pages, written child first: \<open>Details\<close> under \<open>Guide\<close> under
  \<open>Home\<close>.
\<close>

definition chain_child_first :: "wiki_page list" where
  "chain_child_first =
     [a_page 3 (Some 2) 0 ''Details'' ''2020-01-03'',
      a_page 2 (Some 1) 0 ''Guide'' ''2020-01-02'',
      a_page 1 None 0 ''Home'' ''2020-01-01'']"

text \<open>
  A forest of five pages: \<open>Home\<close> with the children \<open>Build\<close> (position 2) and
  \<open>Intro\<close> (position 1), \<open>Intro\<close> with the child \<open>Notes\<close>, and a second root
  \<open>Apps\<close> placed before \<open>Home\<close>.
\<close>

definition forest_pages :: "wiki_page list" where
  "forest_pages =
     [a_page 1 None 5 ''Home'' ''2020-01-01'',
      a_page 2 (Some 1) 2 ''Build'' ''2020-01-02'',
      a_page 3 (Some 1) 1 ''Intro'' ''2020-01-02'',
      a_page 4 (Some 3) 0 ''Notes'' ''2020-01-04'',
      a_page 5 None 3 ''Apps'' ''2020-01-03'']"

definition a_version :: "int \<Rightarrow> int \<Rightarrow> int \<Rightarrow> string \<Rightarrow> wiki_page_version" where
  "a_version i page n updated =
     \<lparr>v_id = i, v_wiki_page_id = page, v_user_id = ''u1'', v_version = n,
      v_change_comment = None, v_created_at = updated, v_updated_at = updated\<rparr>"

definition forest_versions :: "wiki_page_version list" where
  "forest_versions =
     [a_version 10 1 2 ''2020-01-03'',
      a_version 11 1 1 ''2020-01-01'',
      a_version 12 3 1 ''2020-01-03'']"

text \<open>The page objects in presentation order and the version objects of that forest.\<close>

definition forest_run :: "nat list \<times> wiki_state \<times> version_obj list" where
  "forest_run =
     (case wikiparser 10 (fromisoformat_of dates) (data_of forest_pages forest_versions) of
        Inl e \<Rightarrow> ([], initial_state (data_of forest_pages forest_versions), [])
      | Inr x \<Rightarrow> x)"

definition forest_order :: "node list" where
  "forest_order = (case forest_run of (order, st, vs) \<Rightarrow> map (\<lambda>a. nodes st ! a) order)"

definition forest_version_objs :: "version_obj list" where
  "forest_version_objs = (case forest_run of (order, st, vs) \<Rightarrow> vs)"

section \<open>Dictionaries built from pairs\<close>

lemma hkey_JStr [simp]: "hkey k = JStr s \<longleftrightarrow> k = JStr s"
  by (cases k) auto

lemma dict_get_set:
  "dict_get (dict_set d k v) k' = (if hkey k = hkey k' then Some v else dict_get d k')"
  by (induction d) auto







section \<open>Row parsing\<close>




section \<open>The line interpreter\<close>



lemma undeclared_line_outcome:
  assumes "sanitize line0 = line"
    and "length (split line '':fields, '') < 2"
    and "split line '', ['' = table # parts" and "parts \<noteq> []"
    and "fieldmap table = None"
  shows "\<exists>lg. filereader_line loads fieldmap linenum line0
           = (lg @ [Error (''line #{linenum}: Table '' @ [CHR 0x27] @ ''{table}'' @
                      [CHR 0x27] @ '' not defined before '' @ [CHR 0x27] @
                      ''{line}'' @ [CHR 0x27])], Skipped)"
proof -
  have "\<not> length (split line '', ['') < 2"
    using assms(3,4) by (cases parts) auto
  then show ?thesis
    using assms
    by (auto simp: filereader_line_def Let_def)
qed


lemma skipped_continues:
  assumes "snd (filereader_line loads fieldmap linenum line0) = Skipped"
  shows "raised (filereader_from loads fieldmap linenum (line0 # rest))
           = raised (filereader_from loads fieldmap (Suc linenum) rest)
         \<and> yielded (filereader_from loads fieldmap linenum (line0 # rest))
           = yielded (filereader_from loads fieldmap (Suc linenum) rest)
         \<and> fieldmap_out (filereader_from loads fieldmap linenum (line0 # rest))
           = fieldmap_out (filereader_from loads fieldmap (Suc linenum) rest)"
  using assms by (cases "filereader_line loads fieldmap linenum line0") (auto simp: Let_def)



text \<open>
  C8 as stated fails: a data row for a table that has no field list yet does not end the run.
  The generator finishes without an exception and has yielded nothing for the line.
\<close>

theorem undeclared_table_counterexample:
  "raised (filereadertoassemblaobjectgenerator (decoder_of []) [''tickets, [1]''] Map.empty) = None
   \<and> yielded (filereadertoassemblaobjectgenerator (decoder_of []) [''tickets, [1]''] Map.empty) = []
   \<and> logged (filereadertoassemblaobjectgenerator (decoder_of []) [''tickets, [1]''] Map.empty)
     = [Debug ''line #0: tickets, [1]'',
        Error (''line #{linenum}: Table '' @ [CHR 0x27] @ ''{table}'' @ [CHR 0x27] @
               '' not defined before '' @ [CHR 0x27] @ ''{line}'' @ [CHR 0x27])]"
  by code_simp

text \<open>
  C8, as the code has it. A data row whose table has no declared field list is logged at error
  level and skipped: the line yields nothing, raises nothing and leaves the field map alone,
  and the generator goes on with the next line.
\<close>

theorem undeclared_table_row_is_skipped:
  assumes "sanitize line0 = line"
    and "length (split line '':fields, '') < 2"
    and "split line '', ['' = table # parts" and "parts \<noteq> []"
    and "fieldmap table = None"
  shows "(\<exists>lg. filereader_line loads fieldmap linenum line0
                 = (lg @ [Error (''line #{linenum}: Table '' @ [CHR 0x27] @ ''{table}'' @
                            [CHR 0x27] @ '' not defined before '' @ [CHR 0x27] @
                            ''{line}'' @ [CHR 0x27])], Skipped))
         \<and> raised (filereader_from loads fieldmap linenum (line0 # rest))
           = raised (filereader_from loads fieldmap (Suc linenum) rest)
         \<and> yielded (filereader_from loads fieldmap linenum (line0 # rest))
           = yielded (filereader_from loads fieldmap (Suc linenum) rest)
         \<and> fieldmap_out (filereader_from loads fieldmap linenum (line0 # rest))
           = fieldmap_out (filereader_from loads fieldmap (Suc linenum) rest)"
proof -
  from undeclared_line_outcome
         [where loads = loads and linenum = linenum and fieldmap = fieldmap and line = line
            and line0 = line0 and table = table and parts = parts] assms
  obtain lg where
    "filereader_line loads fieldmap linenum line0
       = (lg @ [Error (''line #{linenum}: Table '' @ [CHR 0x27] @ ''{table}'' @
                  [CHR 0x27] @ '' not defined before '' @ [CHR 0x27] @
                  ''{line}'' @ [CHR 0x27])], Skipped)"
    by blast
  moreover from this have "snd (filereader_line loads fieldmap linenum line0) = Skipped"
    by simp
  ultimately show ?thesis
    using skipped_continues[of loads fieldmap linenum line0 rest] by blast
qed

theorem undeclared_table_row_is_skipped_witness:
  "raised (filereader_from (decoder_of [(''[1]'', JArr [JInt 1])]) Map.empty 0
             [''tickets, [1]'', ''users, [1]''])
     = raised (filereader_from (decoder_of [(''[1]'', JArr [JInt 1])]) Map.empty (Suc 0)
                 [''users, [1]''])
   \<and> yielded (filereader_from (decoder_of [(''[1]'', JArr [JInt 1])]) Map.empty 0
             [''tickets, [1]'', ''users, [1]''])
     = yielded (filereader_from (decoder_of [(''[1]'', JArr [JInt 1])]) Map.empty (Suc 0)
                  [''users, [1]''])"
proof -
  have a1: "sanitize ''tickets, [1]'' = ''tickets, [1]''"
    by code_simp
  have a2: "length (split ''tickets, [1]'' '':fields, '') < 2"
    by code_simp
  have a3: "split ''tickets, [1]'' '', ['' = ''tickets'' # [''1]'']"
    by code_simp
  have a4: "[''1]''] \<noteq> []"
    by simp
  have a5: "(Map.empty :: string \<rightharpoonup> json) ''tickets'' = None"
    by simp
  from undeclared_table_row_is_skipped
         [where loads = "decoder_of [(''[1]'', JArr [JInt 1])]" and fieldmap = Map.empty
            and line0 = "''tickets, [1]''" and line = "''tickets, [1]''"
            and table = "''tickets''" and parts = "[''1]'']" and linenum = 0
            and rest = "[''users, [1]'']", OF a1 a2 a3 a4 a5]
  show ?thesis
    by blast
qed

text \<open>
  C9 at a concrete input. The table \<^verbatim>\<open>tickets\<close> has one field, and the row's only value
  is the string \<^verbatim>\<open>open tickets, closed\<close>. The text handed to the decoder is the line with
  every occurrence of \<^verbatim>\<open>tickets, \<close> removed, so the row that comes out holds
  \<^verbatim>\<open>open closed\<close>, although the decoder knows the unchanged payload as well.
\<close>

theorem payload_occurrence_removed:
  "yielded (filereadertoassemblaobjectgenerator
       (decoder_of
          [(''['' @ quoted ''summary'' @ '']'', JArr [JStr ''summary'']),
           (''['' @ quoted ''open tickets, closed'' @ '']'', JArr [JStr ''open tickets, closed'']),
           (''['' @ quoted ''open closed'' @ '']'', JArr [JStr ''open closed''])])
       [''tickets:fields, ['' @ quoted ''summary'' @ '']'',
        ''tickets, ['' @ quoted ''open tickets, closed'' @ '']'']
       Map.empty)
   = [(1, ''tickets, ['' @ quoted ''open tickets, closed'' @ '']'', ''tickets'',
       [(JStr ''summary'', JStr ''open closed'')])]"
  by code_simp
section \<open>The indexer\<close>

lemma dict_of_pairs_hashable:
  "list_all hashable K \<Longrightarrow>
   dict_of_pairs d (zip K V) = Inr (foldl store_pair d (zip K V))"
proof (induction K arbitrary: V d)
  case Nil
  then show ?case by simp
next
  case (Cons k K)
  then show ?case by (cases V) auto
qed

lemma stored_other_key:
  "hkey k \<notin> hkey ` set K \<Longrightarrow>
   dict_get (foldl store_pair d (zip K V)) k = dict_get d k"
proof (induction K arbitrary: V d)
  case Nil
  then show ?case by simp
next
  case (Cons k' K)
  then show ?case by (cases V) (auto simp: dict_get_set)
qed

lemma stored_last_key:
  "length K = length V \<Longrightarrow> i < length K \<Longrightarrow> hkey (K ! i) \<notin> hkey ` set (drop (Suc i) K) \<Longrightarrow>
   dict_get (foldl store_pair d (zip K V)) (K ! i) = Some (V ! i)"
proof (induction K arbitrary: V d i)
  case Nil
  then show ?case by simp
next
  case (Cons k K)
  then obtain v V' where V: "V = v # V'" by (cases V) auto
  show ?case
  proof (cases i)
    case 0
    with Cons.prems V show ?thesis by (simp add: stored_other_key dict_get_set)
  next
    case (Suc j)
    with Cons.prems V Cons.IH[of V' j] show ?thesis by simp
  qed
qed

lemma row_keys_length: "row_keys key objects = Inr ids \<Longrightarrow> length ids = length objects"
  by (induction objects arbitrary: ids) (auto split: option.splits sum.splits)

lemma row_keys_nth:
  "row_keys key objects = Inr ids \<Longrightarrow> i < length objects \<Longrightarrow>
   dict_get (objects ! i) (JStr key) = Some (ids ! i)"
proof (induction objects arbitrary: ids i)
  case Nil
  then show ?case by simp
next
  case (Cons k objects)
  then show ?case by (cases i) (auto split: option.splits sum.splits)
qed

lemma index_table_ok:
  assumes "row_keys key objects = Inr ids" and "list_all hashable ids"
  shows "index_table table key objects
           = (if length ids \<noteq> length (remdups (map hkey ids))
              then [Warning (non_unique_message table (length (remdups (map hkey ids)))
                               (length ids))]
              else [],
              Inr (foldl store_pair [] (zip ids objects)))"
  using assms by (simp add: index_table_def Let_def dict_of_pairs_hashable)

lemma duplicates_counted:
  "\<not> distinct (map hkey ids) \<Longrightarrow> length ids \<noteq> length (remdups (map hkey ids))"
  by (metis distinct_remdups length_map length_remdups_eq)

lemma genindex_from_ok:
  assumes "indexed_ok keymap dflt data" and "distinct (map fst data)"
  shows "\<exists>index'. snd (genindex_from keymap dflt data index) = Inr index'
           \<and> (\<forall>t. t \<notin> fst ` set data \<longrightarrow> index' t = index t)
           \<and> (\<forall>t objs key ids.
                 (t, objs) \<in> set data \<and> table_key keymap dflt t = Some key
                 \<and> \<not> startswith t ''_'' \<and> row_keys key objs = Inr ids \<longrightarrow>
                 index' t = Some (foldl store_pair [] (zip ids objs))
                 \<and> (\<not> distinct (map hkey ids) \<longrightarrow>
                      Warning (non_unique_message t (length (remdups (map hkey ids)))
                                 (length ids))
                        \<in> set (fst (genindex_from keymap dflt data index))))"
  using assms
proof (induction data arbitrary: index)
  case Nil
  then show ?case by simp
next
  case (Cons entry data)
  obtain table objects where entry: "entry = (table, objects)" by (cases entry)
  have ok: "indexed_ok keymap dflt data" and dist: "distinct (map fst data)"
    and fresh: "table \<notin> fst ` set data"
    using Cons.prems entry by (auto simp: indexed_ok_def)
  show ?case
  proof (cases "\<exists>key. table_key keymap dflt table = Some key \<and> \<not> startswith table ''_''")
    case False
    then have step: "genindex_from keymap dflt (entry # data) index
                       = genindex_from keymap dflt data index"
      using entry by (auto split: option.splits)
    from Cons.IH[OF ok dist, of index] obtain index' where
      r: "snd (genindex_from keymap dflt data index) = Inr index'"
      and o: "\<forall>t. t \<notin> fst ` set data \<longrightarrow> index' t = index t"
      and i: "\<forall>t objs key ids.
                 (t, objs) \<in> set data \<and> table_key keymap dflt t = Some key
                 \<and> \<not> startswith t ''_'' \<and> row_keys key objs = Inr ids \<longrightarrow>
                 index' t = Some (foldl store_pair [] (zip ids objs))
                 \<and> (\<not> distinct (map hkey ids) \<longrightarrow>
                      Warning (non_unique_message t (length (remdups (map hkey ids)))
                                 (length ids))
                        \<in> set (fst (genindex_from keymap dflt data index)))"
      by blast
    show ?thesis
      unfolding step using r o i False entry by (intro exI[of _ index']) auto
  next
    case True
    then obtain key where key: "table_key keymap dflt table = Some key"
      and incl: "\<not> startswith table ''_''"
      by blast
    from Cons.prems(1) key incl entry obtain ids where
      ids: "row_keys key objects = Inr ids" and hash: "list_all hashable ids"
      by (auto simp: indexed_ok_def)
    let ?d = "foldl store_pair [] (zip ids objects)"
    let ?lg = "if length ids \<noteq> length (remdups (map hkey ids))
               then [Warning (non_unique_message table (length (remdups (map hkey ids)))
                                (length ids))]
               else []"
    have tab: "index_table table key objects = (?lg, Inr ?d)"
      using index_table_ok[OF ids hash] .
    have step: "genindex_from keymap dflt (entry # data) index
                  = (?lg @ fst (genindex_from keymap dflt data (index(table \<mapsto> ?d))),
                     snd (genindex_from keymap dflt data (index(table \<mapsto> ?d))))"
      using entry key incl tab by (simp split: prod.splits)
    from Cons.IH[OF ok dist, of "index(table \<mapsto> ?d)"] obtain index' where
      r: "snd (genindex_from keymap dflt data (index(table \<mapsto> ?d))) = Inr index'"
      and o: "\<forall>t. t \<notin> fst ` set data \<longrightarrow> index' t = (index(table \<mapsto> ?d)) t"
      and i: "\<forall>t objs key ids.
                 (t, objs) \<in> set data \<and> table_key keymap dflt t = Some key
                 \<and> \<not> startswith t ''_'' \<and> row_keys key objs = Inr ids \<longrightarrow>
                 index' t = Some (foldl store_pair [] (zip ids objs))
                 \<and> (\<not> distinct (map hkey ids) \<longrightarrow>
                      Warning (non_unique_message t (length (remdups (map hkey ids)))
                                 (length ids))
                        \<in> set (fst (genindex_from keymap dflt data (index(table \<mapsto> ?d)))))"
      by blast
    have here: "index' table = Some ?d"
      using o fresh by simp
    have warn: "\<not> distinct (map hkey ids) \<longrightarrow>
                  Warning (non_unique_message table (length (remdups (map hkey ids)))
                             (length ids)) \<in> set ?lg"
      using duplicates_counted[of ids] by simp
    show ?thesis
      unfolding step
    proof (intro exI[of _ index'] conjI allI impI)
      show "snd (?lg @ fst (genindex_from keymap dflt data (index(table \<mapsto> ?d))),
                 snd (genindex_from keymap dflt data (index(table \<mapsto> ?d)))) = Inr index'"
        using r by simp
    next
      fix t assume "t \<notin> fst ` set (entry # data)"
      then show "index' t = index t" using o entry by simp
    next
      fix t objs k' ids'
      assume a: "(t, objs) \<in> set (entry # data) \<and> table_key keymap dflt t = Some k'
                 \<and> \<not> startswith t ''_'' \<and> row_keys k' objs = Inr ids'"
      show "index' t = Some (foldl store_pair [] (zip ids' objs))"
      proof (cases "(t, objs) = entry")
        case True
        then show ?thesis using a entry key ids here by auto
      next
        case False
        then show ?thesis using a i by auto
      qed
    next
      fix t objs k' ids'
      assume a: "(t, objs) \<in> set (entry # data) \<and> table_key keymap dflt t = Some k'
                 \<and> \<not> startswith t ''_'' \<and> row_keys k' objs = Inr ids'"
        and dup: "\<not> distinct (map hkey ids')"
      show "Warning (non_unique_message t (length (remdups (map hkey ids'))) (length ids'))
              \<in> set (fst (?lg @ fst (genindex_from keymap dflt data (index(table \<mapsto> ?d))),
                           snd (genindex_from keymap dflt data (index(table \<mapsto> ?d)))))"
      proof (cases "(t, objs) = entry")
        case True
        then have "t = table" "ids' = ids" using a entry key ids by auto
        then show ?thesis using warn dup by simp
      next
        case False
        then show ?thesis using a i dup by auto
      qed
    qed
  qed
qed

text \<open>
  C7. Let every row of every indexed table hold its key field with a hashable value (a row
  without it is the indexer's one hard error). Then \<^verbatim>\<open>genindex\<close> returns an index, and for
  a table whose rows repeat a key value it has logged the warning with the number of
  different keys and the number of rows, and the table's map binds every key to the last row
  that carries it.
\<close>

theorem duplicate_keys_warn_and_last_wins:
  assumes "keymap None = Some dflt"
    and "distinct (map fst data)"
    and "indexed_ok keymap dflt data"
    and "(table, objects) \<in> set data"
    and "table_key keymap dflt table = Some key" and "\<not> startswith table ''_''"
    and "row_keys key objects = Inr ids"
    and "\<not> distinct (map hkey ids)"
  shows "\<exists>index d.
           snd (genindex data keymap) = Inr index
           \<and> Warning (''Non unique id in table '' @ [CHR 0x27] @ table @ [CHR 0x27] @ '', '' @
                       str_nat (length (remdups (map hkey ids))) @ '' unique of '' @
                       str_nat (length objects) @ '' rows'')
               \<in> set (fst (genindex data keymap))
           \<and> index table = Some d
           \<and> (\<forall>i<length objects.
                 dict_get (objects ! i) (JStr key) = Some (ids ! i)
                 \<and> (hkey (ids ! i) \<notin> hkey ` set (drop (Suc i) ids) \<longrightarrow>
                      dict_get d (ids ! i) = Some (objects ! i)))"
proof -
  let ?d = "foldl store_pair [] (zip ids objects)"
  have len: "length ids = length objects"
    using row_keys_length[OF assms(7)] .
  from genindex_from_ok[OF assms(3) assms(2), of Map.empty] obtain index where
    r: "snd (genindex_from keymap dflt data Map.empty) = Inr index"
    and i: "\<forall>t objs key ids.
               (t, objs) \<in> set data \<and> table_key keymap dflt t = Some key
               \<and> \<not> startswith t ''_'' \<and> row_keys key objs = Inr ids \<longrightarrow>
               index t = Some (foldl store_pair [] (zip ids objs))
               \<and> (\<not> distinct (map hkey ids) \<longrightarrow>
                    Warning (non_unique_message t (length (remdups (map hkey ids)))
                               (length ids))
                      \<in> set (fst (genindex_from keymap dflt data Map.empty)))"
    by blast
  from i assms(4-8) have
    d: "index table = Some ?d"
    and w: "Warning (non_unique_message table (length (remdups (map hkey ids))) (length ids))
              \<in> set (fst (genindex_from keymap dflt data Map.empty))"
    by blast+
  have g: "genindex data keymap = genindex_from keymap dflt data Map.empty"
    using assms(1) by (simp add: genindex_def)
  have last: "\<forall>i<length objects.
                 dict_get (objects ! i) (JStr key) = Some (ids ! i)
                 \<and> (hkey (ids ! i) \<notin> hkey ` set (drop (Suc i) ids) \<longrightarrow>
                      dict_get ?d (ids ! i) = Some (objects ! i))"
    using len row_keys_nth[OF assms(7)] stored_last_key[of ids objects _ "[]"] by simp
  show ?thesis
    using r d w last len unfolding g non_unique_message_def by (intro exI[of _ index] exI[of _ ?d]) simp
qed

theorem duplicate_keys_warn_and_last_wins_witness:
  "\<exists>index d.
     snd (genindex tickets_data main_keymap) = Inr index
     \<and> Warning (''Non unique id in table '' @ [CHR 0x27] @ ''tickets'' @ [CHR 0x27] @
                 '', 2 unique of 3 rows'') \<in> set (fst (genindex tickets_data main_keymap))
     \<and> index ''tickets'' = Some d
     \<and> dict_get d (JInt 42) = Some [(JStr ''id'', JInt 42), (JStr ''summary'', JStr ''second'')]"
proof -
  let ?objects = "[[(JStr ''id'', JInt 42), (JStr ''summary'', JStr ''first'')],
                   [(JStr ''id'', JInt 7), (JStr ''summary'', JStr ''other'')],
                   [(JStr ''id'', JInt 42), (JStr ''summary'', JStr ''second'')]]"
  let ?ids = "[JInt 42, JInt 7, JInt 42]"
  have a1: "main_keymap None = Some (Some ''id'')"
    by (simp add: main_keymap_def)
  have a2: "distinct (map fst tickets_data)"
    by (simp add: tickets_data_def)
  have a5: "table_key main_keymap (Some ''id'') ''tickets'' = Some ''id''"
    by (simp add: table_key_def main_keymap_def)
  have a6: "\<not> startswith ''tickets'' ''_''"
    by (simp add: startswith_def)
  have a7: "row_keys ''id'' ?objects = Inr ?ids"
    by simp
  have a3: "indexed_ok main_keymap (Some ''id'') tickets_data"
    using a7 by (auto simp: indexed_ok_def tickets_data_def startswith_def a5)
  have a4: "(''tickets'', ?objects) \<in> set tickets_data"
    by (simp add: tickets_data_def)
  have a8: "\<not> distinct (map hkey ?ids)"
    by simp
  have n2: "str_nat (length (remdups (map hkey ?ids))) = ''2''"
    and n3: "str_nat (length ?objects) = ''3''"
    by code_simp+
  from duplicate_keys_warn_and_last_wins
         [where keymap = main_keymap and dflt = "Some ''id''" and data = tickets_data
            and table = "''tickets''" and objects = ?objects and key = "''id''" and ids = ?ids,
          OF a1 a2 a3 a4 a5 a6 a7 a8]
  obtain index d where
    r: "snd (genindex tickets_data main_keymap) = Inr index"
    and w: "Warning (''Non unique id in table '' @ [CHR 0x27] @ ''tickets'' @ [CHR 0x27] @ '', '' @
                     str_nat (length (remdups (map hkey ?ids))) @ '' unique of '' @
                     str_nat (length ?objects) @ '' rows'')
              \<in> set (fst (genindex tickets_data main_keymap))"
    and d: "index ''tickets'' = Some d"
    and l: "\<forall>i<length ?objects.
               dict_get (?objects ! i) (JStr ''id'') = Some (?ids ! i)
               \<and> (hkey (?ids ! i) \<notin> hkey ` set (drop (Suc i) ?ids) \<longrightarrow>
                    dict_get d (?ids ! i) = Some (?objects ! i))"
    by blast
  from l[rule_format, of 2] have "dict_get d (JInt 42) = Some (?objects ! 2)"
    by simp
  then have "dict_get d (JInt 42)
               = Some [(JStr ''id'', JInt 42), (JStr ''summary'', JStr ''second'')]"
    by simp
  moreover from w have
    "Warning (''Non unique id in table '' @ [CHR 0x27] @ ''tickets'' @ [CHR 0x27] @
              '', 2 unique of 3 rows'') \<in> set (fst (genindex tickets_data main_keymap))"
    by (simp only: n2 n3 append.simps)
  ultimately show ?thesis
    using r d by blast
qed
section \<open>The first loop of the parser\<close>

lemma set_node_length [simp]: "length (nodes (set_node a f st)) = length (nodes st)"
  by (simp add: set_node_def)

lemma set_node_wikitree [simp]: "wikitree (set_node a f st) = wikitree st"
  by (simp add: set_node_def)

lemma set_node_nth:
  "nodes (set_node a f st) ! b
     = (if b = a \<and> a < length (nodes st) then f (nodes st ! a) else nodes st ! b)"
  by (cases "a < length (nodes st)") (auto simp: set_node_def nth_list_update list_update_beyond)

lemma set_node_src:
  assumes "\<And>v. src (f v) = src v"
  shows "map src (nodes (set_node a f st)) = map src (nodes st)"
  by (rule nth_equalityI) (simp_all add: set_node_nth assms)

lemma append_to_group_nodes [simp]: "nodes (append_to_group parent a st) = nodes st"
  by (simp add: append_to_group_def)

lemma append_to_group_wikitree:
  "wikitree (append_to_group parent a st) =
     (wikitree st)(parent \<mapsto> (case wikitree st parent of None \<Rightarrow> [] | Some g \<Rightarrow> g) @ [a])"
  by (simp add: append_to_group_def)

lemma page_step_src:
  assumes "wiki_page_step fromisoformat d a st = Inr st'"
  shows "map src (nodes st') = map src (nodes st)"
  using assms
  by (auto simp: wiki_page_step_def Let_def set_node_src
      split: option.splits sum.splits if_splits)

lemma page_step_wikitree:
  assumes "wiki_page_step fromisoformat d a st = Inr st'"
  shows "wikitree st' =
           (wikitree st)(parent_id (src (nodes st ! a)) \<mapsto>
              (case wikitree st (parent_id (src (nodes st ! a))) of None \<Rightarrow> [] | Some g \<Rightarrow> g) @ [a])"
  using assms
  by (auto simp: wiki_page_step_def Let_def append_to_group_wikitree
      split: option.splits sum.splits if_splits)

lemma same_src_nth:
  fixes xs ys :: "node list"
  assumes "map src xs = map src ys" and "b < length ys"
  shows "src (xs ! b) = src (ys ! b)"
  using assms by (metis length_map nth_map)


lemma pages_loop_wikitree:
  assumes "wiki_pages_loop fromisoformat d as st = Inr st'"
    and "\<forall>a \<in> set as. a < length (nodes st)"
  shows "wikitree st' k =
           (if filter (\<lambda>a. parent_id (src (nodes st ! a)) = k) as = [] then wikitree st k
            else Some ((case wikitree st k of None \<Rightarrow> [] | Some g \<Rightarrow> g) @
                       filter (\<lambda>a. parent_id (src (nodes st ! a)) = k) as))"
  using assms
proof (induction as arbitrary: st)
  case Nil
  then show ?case by simp
next
  case (Cons a as)
  from Cons.prems obtain st1 where
    step: "wiki_page_step fromisoformat d a st = Inr st1"
    and loop: "wiki_pages_loop fromisoformat d as st1 = Inr st'"
    by (auto split: sum.splits)
  have len: "length (nodes st1) = length (nodes st)"
    using page_step_src[OF step] by (metis length_map)
  have src: "src (nodes st1 ! b) = src (nodes st ! b)" if "b < length (nodes st)" for b
    using same_src_nth[OF page_step_src[OF step] that] .
  have in_range: "\<forall>a \<in> set as. a < length (nodes st1)"
    using Cons.prems(2) len by simp
  have same: "filter (\<lambda>a. parent_id (src (nodes st1 ! a)) = k) as
                = filter (\<lambda>a. parent_id (src (nodes st ! a)) = k) as"
    by (rule filter_cong) (use Cons.prems(2) src in auto)
  show ?case
    unfolding Cons.IH[OF loop in_range] page_step_wikitree[OF step] same
    by (simp split: option.splits)
qed

lemma initial_state_src [simp]:
  "a < length (wiki_pages d) \<Longrightarrow> src (nodes (initial_state d) ! a) = wiki_pages d ! a"
  by (simp add: initial_state_def fresh_node_def)

lemma initial_state_length [simp]:
  "length (nodes (initial_state d)) = length (wiki_pages d)"
  by (simp add: initial_state_def)

lemma enrich_wikitree:
  assumes "wiki_enrich fromisoformat d = Inr (st, vs)"
  shows "wikitree st k =
           (if filter (\<lambda>a. parent_id (wiki_pages d ! a) = k) [0..<length (wiki_pages d)] = []
            then None
            else Some (filter (\<lambda>a. parent_id (wiki_pages d ! a) = k) [0..<length (wiki_pages d)]))"
proof -
  from assms have loop:
    "wiki_pages_loop fromisoformat d [0..<length (wiki_pages d)] (initial_state d) = Inr st"
    by (auto simp: wiki_enrich_def split: sum.splits)
  have same: "filter (\<lambda>a. parent_id (src (nodes (initial_state d) ! a)) = k)
                     [0..<length (wiki_pages d)]
                = filter (\<lambda>a. parent_id (wiki_pages d ! a) = k) [0..<length (wiki_pages d)]"
    by (rule filter_cong) auto
  have "wikitree (initial_state d) k = None"
    by (simp add: initial_state_def)
  then show ?thesis
    using pages_loop_wikitree[OF loop, of k] unfolding same by simp
qed

text \<open>
  C10. When no row of \<^verbatim>\<open>wiki_pages\<close> has a null \<^verbatim>\<open>parent_id\<close>, \<^verbatim>\<open>wikiparser\<close> never
  returns a sequence: it raises. If the two loops get through, the exception is the
  \<^verbatim>\<open>KeyError\<close> of \<^verbatim>\<open>wikitree[None]\<close>; otherwise it is the exception of the loop.
\<close>

theorem no_root_row_raises:
  assumes "\<forall>p \<in> set (wiki_pages d). parent_id p \<noteq> None"
  shows "(\<exists>e. wikiparser limit fromisoformat d = Inl e)
         \<and> (\<forall>st vs. wiki_enrich fromisoformat d = Inr (st, vs) \<longrightarrow>
               wikiparser limit fromisoformat d = Inl (KeyError JNull))"
proof -
  have none: "filter (\<lambda>a. parent_id (wiki_pages d ! a) = None) [0..<length (wiki_pages d)] = []"
    using assms by (auto simp: filter_empty_conv)
  have key: "wikiparser limit fromisoformat d = Inl (KeyError JNull)"
    if "wiki_enrich fromisoformat d = Inr (st, vs)" for st vs
    using that enrich_wikitree[OF that, of None] none by (simp add: wikiparser_def)
  show ?thesis
  proof (cases "wiki_enrich fromisoformat d")
    case (Inl e)
    then show ?thesis by (simp add: wikiparser_def)
  next
    case (Inr r)
    then show ?thesis using key by (cases r) auto
  qed
qed

theorem no_root_row_raises_witness:
  "wikiparser 10 (fromisoformat_of dates)
     (data_of [a_page 1 (Some 2) 0 ''A'' ''2020-01-01'', a_page 2 (Some 1) 0 ''B'' ''2020-01-01''] [])
     = Inl (KeyError JNull)"
proof -
  let ?d = "data_of [a_page 1 (Some 2) 0 ''A'' ''2020-01-01'',
                     a_page 2 (Some 1) 0 ''B'' ''2020-01-01''] []"
  have h: "\<forall>p \<in> set (wiki_pages ?d). parent_id p \<noteq> None"
    by (simp add: data_of_def a_page_def)
  have "case wiki_enrich (fromisoformat_of dates) ?d of Inl e \<Rightarrow> False | Inr r \<Rightarrow> True"
    by code_simp
  then obtain st vs where ok: "wiki_enrich (fromisoformat_of dates) ?d = Inr (st, vs)"
    by (cases "wiki_enrich (fromisoformat_of dates) ?d") auto
  from no_root_row_raises[OF h, of 10 "fromisoformat_of dates"] ok show ?thesis
    by blast
qed

text \<open>
  C2 at a concrete input: the chain \<open>Home\<close>, \<open>Guide\<close>, \<open>Details\<close> with the rows
  written child first. \<open>Guide\<close> has no level yet when \<open>Details\<close> is processed, so
  \<open>Details\<close> gets \<open>0 + 1\<close>; \<open>Guide\<close> then gets level 1 as well. In the same
  table written parent first the levels are 0, 1 and 2.
\<close>

theorem level_of_child_before_parent:
  "(case wikiparser 10 (fromisoformat_of dates) (data_of chain_child_first []) of
      Inl e \<Rightarrow> []
    | Inr (order, st, vs) \<Rightarrow> map (\<lambda>v. (page_name (src v), x_level v)) (nodes st))
     = [(''Details'', Some 1), (''Guide'', Some 1), (''Home'', Some 0)]
   \<and> (case wikiparser 10 (fromisoformat_of dates) (data_of (rev chain_child_first) []) of
      Inl e \<Rightarrow> []
    | Inr (order, st, vs) \<Rightarrow> map (\<lambda>v. (page_name (src v), x_level v)) (nodes st))
     = [(''Home'', Some 0), (''Guide'', Some 1), (''Details'', Some 2)]"
  by code_simp
section \<open>The replay generator\<close>

lemma sorted_by_datetime_Inr:
  assumes "sorted_by_datetime key xs = Inr ys"
  shows "ys = sort_key (\<lambda>x. dt_key (key x)) xs"
    and "\<forall>x \<in> set xs. \<forall>y \<in> set xs. aware (key x) = aware (key y)"
proof -
  have c: "\<not> (\<exists>x \<in> set xs. \<exists>y \<in> set xs. aware (key x) \<noteq> aware (key y))"
    using assms unfolding sorted_by_datetime_def by (metis Inl_Inr_False)
  show "ys = sort_key (\<lambda>x. dt_key (key x)) xs"
    using assms c unfolding sorted_by_datetime_def by (simp only: if_False sum.inject)
  show "\<forall>x \<in> set xs. \<forall>y \<in> set xs. aware (key x) = aware (key y)"
    using c by blast
qed

lemma commit_from_events:
  assumes "wikicommit_from str_datetime order vs = (evs, r)"
  shows "length evs \<le> length vs
         \<and> map (wikicommit_event str_datetime order) (take (length evs) vs) = map Inr evs
         \<and> (r = None \<longrightarrow> length evs = length vs)"
  using assms
proof (induction vs arbitrary: evs r)
  case Nil
  then show ?case by simp
next
  case (Cons v vs)
  show ?case
  proof (cases "wikicommit_event str_datetime order v")
    case (Inl e)
    with Cons.prems show ?thesis by auto
  next
    case (Inr ev)
    obtain evs' r' where rest: "wikicommit_from str_datetime order vs = (evs', r')"
      by (cases "wikicommit_from str_datetime order vs")
    with Cons.prems Inr have "evs = ev # evs'" "r = r'" by auto
    with Cons.IH[OF rest] Inr show ?thesis by simp
  qed
qed

lemma commit_event_date:
  "wikicommit_event str_datetime order v = Inr ev \<Longrightarrow> date ev = vx_updated_at v"
  by (auto simp: wikicommit_event_def Let_def split: sum.splits)

lemma commit_from_dates:
  assumes "wikicommit_from str_datetime order vs = (evs, r)"
  shows "map date evs = map vx_updated_at (take (length evs) vs)"
proof -
  from commit_from_events[OF assms] have
    m: "map (wikicommit_event str_datetime order) (take (length evs) vs) = map Inr evs"
    by blast
  show ?thesis
  proof (rule nth_equalityI)
    show "length (map date evs) = length (map vx_updated_at (take (length evs) vs))"
      using commit_from_events[OF assms] by simp
  next
    fix i assume "i < length (map date evs)"
    then have i: "i < length evs" by simp
    have "map (wikicommit_event str_datetime order) (take (length evs) vs) ! i = map Inr evs ! i"
      using m by simp
    moreover have il: "i < length (take (length evs) vs)"
      using i commit_from_events[OF assms] by simp
    ultimately have "wikicommit_event str_datetime order (take (length evs) vs ! i) = Inr (evs ! i)"
      using i by (simp only: nth_map)
    from commit_event_date[OF this] show "map date evs ! i = map vx_updated_at (take (length evs) vs) ! i"
      using i il by (simp only: nth_map)
  qed
qed

lemma sorted_take_nth:
  assumes "sorted (map f ys)" and "i < j" and "j < n" and "n \<le> length ys"
  shows "f (take n ys ! i) \<le> f (take n ys ! j)"
proof -
  have "map f ys ! i \<le> map f ys ! j"
    using assms by (intro sorted_nth_mono) auto
  then show ?thesis using assms by simp
qed

text \<open>
  C1. The events the generator yields, up to its end or to the exception that stops it, are
  the events of a beginning of the list \<open>vs\<close>, which holds the input versions sorted by
  update time with versions of equal time in their input order; so the dates of the events
  never decrease.
\<close>

theorem replay_events_in_time_order:
  assumes "wikicommitgenerator str_datetime wikiversions order = (evs, r)"
  shows "(\<forall>i j. i < j \<and> j < length evs \<longrightarrow> dt_le (date (evs ! i)) (date (evs ! j)) = Inr True)
         \<and> (\<exists>vs. length evs \<le> length vs
                \<and> map (wikicommit_event str_datetime order) (take (length evs) vs) = map Inr evs
                \<and> map date evs = map vx_updated_at (take (length evs) vs)
                \<and> (r = None \<longrightarrow> length evs = length vs)
                \<and> length vs = length wikiversions \<and> set vs = set wikiversions
                \<and> (\<forall>k. filter (\<lambda>v. dt_key (vx_updated_at v) = k) vs
                         = filter (\<lambda>v. dt_key (vx_updated_at v) = k) wikiversions))"
proof (cases "sorted_by_datetime vx_updated_at wikiversions")
  case (Inl e)
  with assms have "evs = []" by (simp add: wikicommitgenerator_def)
  moreover from assms Inl have "r \<noteq> None" by (auto simp: wikicommitgenerator_def)
  ultimately show ?thesis by (auto intro!: exI[of _ wikiversions])
next
  case (Inr vs)
  let ?f = "\<lambda>v. dt_key (vx_updated_at v)"
  have vs: "vs = sort_key ?f wikiversions"
    and same: "\<forall>x \<in> set wikiversions. \<forall>y \<in> set wikiversions.
                 aware (vx_updated_at x) = aware (vx_updated_at y)"
    using sorted_by_datetime_Inr[OF Inr] by blast+
  from assms Inr have run: "wikicommit_from str_datetime order vs = (evs, r)"
    by (simp add: wikicommitgenerator_def)
  note ev = commit_from_events[OF run]
  note dates = commit_from_dates[OF run]
  have sorted: "sorted (map ?f vs)" by (simp add: vs)
  have setvs: "set vs = set wikiversions" by (simp add: vs)
  have order: "dt_le (date (evs ! i)) (date (evs ! j)) = Inr True"
    if "i < j" and "j < length evs" for i j
  proof -
    have di: "date (evs ! i) = vx_updated_at (take (length evs) vs ! i)"
      and dj: "date (evs ! j) = vx_updated_at (take (length evs) vs ! j)"
      using dates that ev by (metis length_map nth_map order.strict_trans)+
    have mi: "take (length evs) vs ! i \<in> set wikiversions"
      and mj: "take (length evs) vs ! j \<in> set wikiversions"
      using that ev setvs by (metis in_set_takeD length_take min.absorb2 nth_mem order.strict_trans)+
    have le: "?f (take (length evs) vs ! i) \<le> ?f (take (length evs) vs ! j)"
      using sorted_take_nth[OF sorted that] ev by blast
    have aw: "aware (vx_updated_at (take (length evs) vs ! i))
              = aware (vx_updated_at (take (length evs) vs ! j))"
      using same mi mj by blast
    show ?thesis
      unfolding di dj dt_le_def using le aw by (simp only: if_True simp_thms)
  qed
  have stable: "filter (\<lambda>v. ?f v = k) vs = filter (\<lambda>v. ?f v = k) wikiversions" for k
    unfolding vs by (rule sort_key_stable)
  have len: "length vs = length wikiversions" by (simp add: vs)
  have ex: "\<exists>vs. length evs \<le> length vs
                \<and> map (wikicommit_event str_datetime order) (take (length evs) vs) = map Inr evs
                \<and> map date evs = map vx_updated_at (take (length evs) vs)
                \<and> (r = None \<longrightarrow> length evs = length vs)
                \<and> length vs = length wikiversions \<and> set vs = set wikiversions
                \<and> (\<forall>k. filter (\<lambda>v. dt_key (vx_updated_at v) = k) vs
                         = filter (\<lambda>v. dt_key (vx_updated_at v) = k) wikiversions)"
    using ev dates len setvs stable by (intro exI[of _ vs]) blast
  from order ex show ?thesis by blast
qed

theorem replay_events_in_time_order_witness:
  "map name (fst (wikicommitgenerator (str_datetime_of dates) forest_version_objs forest_order))
     = [''Home:1'', ''Home:2'', ''Intro:1'']
   \<and> snd (wikicommitgenerator (str_datetime_of dates) forest_version_objs forest_order) = None
   \<and> dt_le (date (fst (wikicommitgenerator (str_datetime_of dates) forest_version_objs forest_order) ! 0))
            (date (fst (wikicommitgenerator (str_datetime_of dates) forest_version_objs forest_order) ! 1))
        = Inr True
   \<and> dt_le (date (fst (wikicommitgenerator (str_datetime_of dates) forest_version_objs forest_order) ! 1))
            (date (fst (wikicommitgenerator (str_datetime_of dates) forest_version_objs forest_order) ! 2))
        = Inr True"
proof -
  let ?G = "wikicommitgenerator (str_datetime_of dates) forest_version_objs forest_order"
  have names: "map name (fst ?G) = [''Home:1'', ''Home:2'', ''Intro:1'']"
    by code_simp
  have ended: "snd ?G = None"
    by code_simp
  have len: "length (fst ?G) = 3"
    using arg_cong[OF names, of length] by simp
  have run: "?G = (fst ?G, snd ?G)"
    by simp
  have ordered: "\<forall>i j. i < j \<and> j < length (fst ?G) \<longrightarrow>
                   dt_le (date (fst ?G ! i)) (date (fst ?G ! j)) = Inr True"
    using replay_events_in_time_order[OF run] by blast
  have "dt_le (date (fst ?G ! 0)) (date (fst ?G ! 1)) = Inr True"
    using ordered len by simp
  moreover have "dt_le (date (fst ?G ! 1)) (date (fst ?G ! 2)) = Inr True"
    using ordered len by simp
  ultimately show ?thesis
    using names ended by blast
qed

section \<open>The index artifact of an event\<close>

lemma present_at_Inr:
  "present_at now w = Inr b \<Longrightarrow> b = active_at now w"
  by (auto simp: present_at_def active_at_def dt_le_def split: option.splits sum.splits if_splits)

lemma index_from_lines:
  assumes "wikiindexproducer_from out (lazy_filter (present_at now) order) = Inr s"
  shows "s = out @ concat (map index_line (filter (active_at now) order))"
  using assms
proof (induction order arbitrary: out)
  case Nil
  then show ?case by (simp add: lazy_filter_def)
next
  case (Cons w order)
  show ?case
  proof (cases "present_at now w")
    case (Inl e)
    with Cons.prems show ?thesis by (simp add: lazy_filter_def)
  next
    case (Inr b)
    note act = present_at_Inr[OF Inr]
    show ?thesis
    proof (cases b)
      case False
      with Cons.prems Inr have
        "wikiindexproducer_from out (lazy_filter (present_at now) order) = Inr s"
        by (simp add: lazy_filter_def)
      from Cons.IH[OF this] act False show ?thesis by simp
    next
      case True
      show ?thesis
      proof (cases "x_level w")
        case None
        with Cons.prems Inr True show ?thesis by (simp add: lazy_filter_def)
      next
        case (Some l)
        with Cons.prems Inr True have
          "wikiindexproducer_from (out @ index_line w) (lazy_filter (present_at now) order) = Inr s"
          by (simp add: lazy_filter_def index_line_def)
        from Cons.IH[OF this] act True show ?thesis by simp
      qed
    qed
  qed
qed

lemma index_from_tests:
  assumes "wikiindexproducer_from out (lazy_filter (present_at now) order) = Inr s"
  shows "\<forall>w \<in> set order. present_at now w = Inr (active_at now w)
                          \<and> (active_at now w \<longrightarrow> x_level w \<noteq> None)"
  using assms
proof (induction order arbitrary: out)
  case Nil
  then show ?case by simp
next
  case (Cons w order)
  show ?case
  proof (cases "present_at now w")
    case (Inl e)
    with Cons.prems show ?thesis by (simp add: lazy_filter_def)
  next
    case (Inr b)
    note act = present_at_Inr[OF Inr]
    show ?thesis
    proof (cases b)
      case False
      with Cons.prems Inr have
        "wikiindexproducer_from out (lazy_filter (present_at now) order) = Inr s"
        by (simp add: lazy_filter_def)
      from Cons.IH[OF this] act False Inr show ?thesis by simp
    next
      case True
      show ?thesis
      proof (cases "x_level w")
        case None
        with Cons.prems Inr True show ?thesis by (simp add: lazy_filter_def)
      next
        case (Some l)
        with Cons.prems Inr True have
          "wikiindexproducer_from (out @ index_line w) (lazy_filter (present_at now) order) = Inr s"
          by (simp add: lazy_filter_def index_line_def)
        from Cons.IH[OF this] act True Inr Some show ?thesis by simp
      qed
    qed
  qed
qed

lemma index_producer_artifact:
  "wikiindexproducer (lazy_filter (present_at now) order) = Inr s \<Longrightarrow> s = index_artifact now order"
  using index_from_lines[of "''**PortAudio**'' @ [CHR 0x0A]" now order s]
  by (simp add: wikiindexproducer_def index_artifact_def)

lemma commit_event_files:
  assumes "wikicommit_event str_datetime order v = Inr ev"
  shows "date ev = vx_updated_at v"
    and "wikiindexproducer (lazy_filter (present_at (date ev)) order)
           = Inr (index_artifact (date ev) order)"
    and "files ev = dict_set (dict_set [] (JStr ''_Sidebar.md'') (index_artifact (date ev) order))
                      (JStr (page_name (src (vx_wiki_page_id v)) @ ''.md''))
                      (getwikiblob str_datetime v)"
    and "\<forall>w \<in> set order. present_at (date ev) w = Inr (active_at (date ev) w)
                          \<and> (active_at (date ev) w \<longrightarrow> x_level w \<noteq> None)"
proof -
  obtain s where s: "wikiindexproducer (lazy_filter (present_at (vx_updated_at v)) order) = Inr s"
    using assms by (cases "wikiindexproducer (lazy_filter (present_at (vx_updated_at v)) order)")
      (simp_all add: wikicommit_event_def Let_def)
  note art = index_producer_artifact[OF s]
  show d: "date ev = vx_updated_at v"
    using assms s by (auto simp: wikicommit_event_def Let_def)
  show "wikiindexproducer (lazy_filter (present_at (date ev)) order)
          = Inr (index_artifact (date ev) order)"
    using s art d by simp
  show "files ev = dict_set (dict_set [] (JStr ''_Sidebar.md'') (index_artifact (date ev) order))
                      (JStr (page_name (src (vx_wiki_page_id v)) @ ''.md''))
                      (getwikiblob str_datetime v)"
    using assms s art d by (auto simp: wikicommit_event_def Let_def)
  show "\<forall>w \<in> set order. present_at (date ev) w = Inr (active_at (date ev) w)
                          \<and> (active_at (date ev) w \<longrightarrow> x_level w \<noteq> None)"
    using index_from_tests[of "''**PortAudio**'' @ [CHR 0x0A]" "date ev" order s] s d
    by (simp add: wikiindexproducer_def)
qed

lemma commit_from_member:
  assumes "wikicommit_from str_datetime order vs = (evs, r)" and "ev \<in> set evs"
  shows "\<exists>v \<in> set vs. wikicommit_event str_datetime order v = Inr ev"
  using assms
proof (induction vs arbitrary: evs r)
  case Nil
  then show ?case by simp
next
  case (Cons v vs)
  show ?case
  proof (cases "wikicommit_event str_datetime order v")
    case (Inl e)
    with Cons.prems show ?thesis by auto
  next
    case (Inr ev')
    obtain evs' r' where rest: "wikicommit_from str_datetime order vs = (evs', r')"
      by (cases "wikicommit_from str_datetime order vs")
    with Cons.prems(1) Inr have evs: "evs = ev' # evs'" by auto
    show ?thesis
    proof (cases "ev = ev'")
      case True
      with Inr show ?thesis by simp
    next
      case False
      with Cons.prems(2) evs have "ev \<in> set evs'" by simp
      from Cons.IH[OF rest this] show ?thesis by auto
    qed
  qed
qed

lemma sidebar_entry:
  assumes "fname \<noteq> ''_Sidebar.md''"
  shows "dict_get (dict_set (dict_set [] (JStr ''_Sidebar.md'') s) (JStr fname) b)
           (JStr ''_Sidebar.md'') = Some s"
  using assms by (simp add: dict_get_set)

text \<open>
  What every event holds, whatever the list \<open>order\<close> is. The event belongs to a version
  \<open>v\<close> of the input and carries that version's update time as its date. When the event was
  built, every test of the lazy filter and every lookup of a level succeeded, and the
  producer returned the fixed header followed by one line for each page object of \<open>order\<close>
  that was created at or before that time and has status 1, in the order of \<open>order\<close>; a
  line is two spaces for each unit of the \<^verbatim>\<open>_level\<close> stored in the page object, then the link
  to the page's title. That text is stored under \<^verbatim>\<open>_Sidebar.md\<close>, and the page text under
  the page's own file name after it: for a page that is itself named \<^verbatim>\<open>_Sidebar\<close> the two
  keys are the same and the event holds the page text only.
\<close>

lemma event_index_by_stored_level:
  assumes "wikicommitgenerator str_datetime wikiversions order = (evs, r)"
    and "ev \<in> set evs"
  shows "\<exists>v \<in> set wikiversions.
           date ev = vx_updated_at v
           \<and> wikiindexproducer (lazy_filter (present_at (vx_updated_at v)) order)
               = Inr (index_artifact (vx_updated_at v) order)
           \<and> (\<forall>w \<in> set order.
                  present_at (vx_updated_at v) w = Inr (active_at (vx_updated_at v) w)
                  \<and> (active_at (vx_updated_at v) w \<longrightarrow> x_level w \<noteq> None))
           \<and> index_artifact (vx_updated_at v) order
               = ''**PortAudio**'' @ [CHR 0x0A] @
                 concat (map index_line (filter (active_at (vx_updated_at v)) order))
           \<and> files ev = dict_set (dict_set [] (JStr ''_Sidebar.md'')
                                    (index_artifact (vx_updated_at v) order))
                           (JStr (page_name (src (vx_wiki_page_id v)) @ ''.md''))
                           (getwikiblob str_datetime v)
           \<and> (page_name (src (vx_wiki_page_id v)) \<noteq> ''_Sidebar'' \<longrightarrow>
                dict_get (files ev) (JStr ''_Sidebar.md'')
                  = Some (index_artifact (vx_updated_at v) order))"
proof (cases "sorted_by_datetime vx_updated_at wikiversions")
  case (Inl e)
  with assms show ?thesis by (simp add: wikicommitgenerator_def)
next
  case (Inr vs)
  have vs: "set vs = set wikiversions"
    using sorted_by_datetime_Inr(1)[OF Inr] by simp
  from assms(1) Inr have run: "wikicommit_from str_datetime order vs = (evs, r)"
    by (simp add: wikicommitgenerator_def)
  from commit_from_member[OF run assms(2)] vs obtain v where
    v: "v \<in> set wikiversions" and ev: "wikicommit_event str_datetime order v = Inr ev"
    by blast
  note f = commit_event_files[OF ev]
  have side: "page_name (src (vx_wiki_page_id v)) \<noteq> ''_Sidebar'' \<longrightarrow>
                dict_get (files ev) (JStr ''_Sidebar.md'')
                  = Some (index_artifact (vx_updated_at v) order)"
    unfolding f(3) f(1) using sidebar_entry[of "page_name (src (vx_wiki_page_id v)) @ ''.md''"]
    by simp
  have "date ev = vx_updated_at v
           \<and> wikiindexproducer (lazy_filter (present_at (vx_updated_at v)) order)
               = Inr (index_artifact (vx_updated_at v) order)
           \<and> (\<forall>w \<in> set order.
                  present_at (vx_updated_at v) w = Inr (active_at (vx_updated_at v) w)
                  \<and> (active_at (vx_updated_at v) w \<longrightarrow> x_level w \<noteq> None))
           \<and> index_artifact (vx_updated_at v) order
               = ''**PortAudio**'' @ [CHR 0x0A] @
                 concat (map index_line (filter (active_at (vx_updated_at v)) order))
           \<and> files ev = dict_set (dict_set [] (JStr ''_Sidebar.md'')
                                    (index_artifact (vx_updated_at v) order))
                           (JStr (page_name (src (vx_wiki_page_id v)) @ ''.md''))
                           (getwikiblob str_datetime v)
           \<and> (page_name (src (vx_wiki_page_id v)) \<noteq> ''_Sidebar'' \<longrightarrow>
                dict_get (files ev) (JStr ''_Sidebar.md'')
                  = Some (index_artifact (vx_updated_at v) order))"
    using f side by (simp add: index_artifact_def)
  with v show ?thesis by blast
qed

text \<open>
  C6 at a concrete input: the chain \<open>Home\<close>, \<open>Guide\<close>, \<open>Details\<close> and one version of
  \<open>Details\<close>, updated when all three pages exist. \<open>Details\<close> lies two levels below the
  top, so its line of the index should be indented by four spaces. With the rows of
  \<^verbatim>\<open>wiki_pages\<close> written child first the line is indented by two spaces, as the line of
  \<open>Guide\<close> is: the indentation is \<^verbatim>\<open>'  ' * v['_level']\<close>, and \<^verbatim>\<open>_level\<close> was computed
  before the parent had one. With the same rows written parent first the line is indented
  by four spaces.
\<close>

theorem index_indent_of_child_before_parent:
  "map (\<lambda>ev. (name ev, dict_get (files ev) (JStr ''_Sidebar.md'')))
     (fst (wikiconvert_events 10 (fromisoformat_of dates) (str_datetime_of dates)
             (data_of chain_child_first [a_version 10 3 1 ''2020-01-04''])))
     = [(''Details:1'',
         Some (''**PortAudio**'' @ [CHR 0x0A] @
               ''* [[Home]]'' @ [CHR 0x0A] @
               ''  * [[Guide]]'' @ [CHR 0x0A] @
               ''  * [[Details]]'' @ [CHR 0x0A]))]
   \<and> map (\<lambda>ev. (name ev, dict_get (files ev) (JStr ''_Sidebar.md'')))
       (fst (wikiconvert_events 10 (fromisoformat_of dates) (str_datetime_of dates)
               (data_of (rev chain_child_first) [a_version 10 3 1 ''2020-01-04''])))
     = [(''Details:1'',
         Some (''**PortAudio**'' @ [CHR 0x0A] @
               ''* [[Home]]'' @ [CHR 0x0A] @
               ''  * [[Guide]]'' @ [CHR 0x0A] @
               ''    * [[Details]]'' @ [CHR 0x0A]))]"
  by code_simp

section \<open>Forests given by a parent function\<close>











section \<open>Pre-order listings\<close>






section \<open>The traversal is a pre-order listing\<close>



section \<open>The lists of children the first loop links\<close>


















end
